theory Spec2Isabelle
  imports Main "HOL-Library.Word"
begin

section \<open>Label fusion of the global segment map: \<open>LabelTsdfIntegrator\<close>\<close>

text \<open>
  A shallow embedding of \<^verbatim>\<open>global_segment_map/label_tsdf_integrator.h\<close>. Every member
  function the properties below talk about is transcribed as a HOL function over the
  members it reads and writes. A glog \<^verbatim>\<open>CHECK\<close> that fails ends the process; it is the
  value \<open>Inl CheckFailed\<close>.
\<close>

subsection \<open>Types\<close>

text \<open>
  Modelled from the spec: the typedefs \<^verbatim>\<open>Label\<close> and \<^verbatim>\<open>LabelConfidence\<close> and the
  struct \<^verbatim>\<open>LabelVoxel\<close> live in \<^verbatim>\<open>label_voxel.h\<close>, which is not among the sources.
  The spec calls a label an unsigned integer identity with 0 for "unobserved"; neither it nor
  the sources give a width. Labels are 32-bit words here, the width of the \<^verbatim>\<open>unsigned int\<close>
  whose limit \<^verbatim>\<open>getFreshLabel\<close> names; that function and its property are stated for a
  label of every width, and elsewhere the width only decides at which counter minting runs
  out. The confidence is an unsigned counter of any width \<open>'c\<close>. A voxel holds one of each.
\<close>

type_synonym Label = "32 word"

record 'c LabelVoxel =
  label :: Label
  label_confidence :: 'c

text \<open>
  \<^verbatim>\<open>LabelTsdfConfig\<close>. A C++ \<^verbatim>\<open>int\<close> is a 32-bit word read in two's complement by
  \<open>sint\<close>; an increment wraps, where C++ leaves the overflow undefined. The \<^verbatim>\<open>float\<close>
  field \<^verbatim>\<open>pairwise_confidence_ratio_threshold\<close> is not a field of the record: the one
  comparison that reads it is a parameter of the functions that make it.
\<close>

type_synonym cint = "32 word"

record LabelTsdfConfig =
  enable_pairwise_confidence_merging :: bool
  pairwise_confidence_threshold :: cint
  cap_confidence :: bool
  confidence_cap_value :: cint

datatype error = CheckFailed | InvalidatedIterator

subsection \<open>The voxel update rule\<close>

text \<open>
  The comparison \<^verbatim>\<open>label_voxel->label_confidence > confidence_cap_value\<close> of an unsigned
  confidence with an \<^verbatim>\<open>int\<close>, under the usual arithmetic conversions: a confidence
  narrower than \<^verbatim>\<open>int\<close> is promoted and the comparison is signed, otherwise the cap is
  converted to the unsigned type.
\<close>

definition cap_exceeded :: "'c::len word \<Rightarrow> cint \<Rightarrow> bool" where
  "cap_exceeded c cap =
     (if LENGTH('c) < 32 then sint cap < uint c
      else sint cap mod 2 ^ LENGTH('c) < uint c)"

text \<open>
  \<^verbatim>\<open>updateLabelVoxel(point_G, label, confidence, label_voxel)\<close>. The function writes
  \<^verbatim>\<open>*label_voxel\<close> and \<^verbatim>\<open>*highest_label_\<close>; the model takes and returns the two.
  \<^verbatim>\<open>point_G\<close> only selects the mutex.
\<close>

definition updateLabelVoxel ::
  "LabelTsdfConfig \<Rightarrow> Label \<Rightarrow> 'c::len word \<Rightarrow>
   'c word LabelVoxel \<times> Label \<Rightarrow> 'c word LabelVoxel \<times> Label" where
  "updateLabelVoxel cfg l confidence = (\<lambda>(label_voxel, highest_label).
     if label label_voxel = l then
       (let v = label_voxel\<lparr>label_confidence := label_confidence label_voxel + confidence\<rparr>
        in if cap_confidence cfg \<and> cap_exceeded (label_confidence v) (confidence_cap_value cfg)
           then v\<lparr>label_confidence := word_of_int (sint (confidence_cap_value cfg))\<rparr>
           else v,
        highest_label)
     else if label_confidence label_voxel = 0 then
       (label_voxel\<lparr>label := l, label_confidence := confidence\<rparr>,
        if highest_label < l then l else highest_label)
     else
       (label_voxel\<lparr>label_confidence := label_confidence label_voxel - confidence\<rparr>,
        highest_label))"

subsection \<open>Minting\<close>

text \<open>
  \<^verbatim>\<open>getFreshLabel\<close>: the check that the counter is below the maximum of
  \<^verbatim>\<open>unsigned int\<close>, \<open>2\<^sup>3\<^sup>2 - 1\<close>, then the pre-increment in the label type. The result is
  the returned label and the new \<^verbatim>\<open>*highest_label_\<close>. The function is written for a
  label of any width, so that the limit it names and the width of the label stay apart.
\<close>

definition getFreshLabel :: "'l::len word \<Rightarrow> error + ('l word \<times> 'l word)" where
  "getFreshLabel highest_label =
     (if unat highest_label < 2 ^ 32 - 1 then Inr (highest_label + 1, highest_label + 1)
      else Inl CheckFailed)"

text \<open>The defaults of \<^verbatim>\<open>LabelTsdfConfig\<close>, as its member initialisers give them.\<close>

definition default_config :: LabelTsdfConfig where
  "default_config =
     \<lparr>enable_pairwise_confidence_merging = False, pairwise_confidence_threshold = 2,
      cap_confidence = False, confidence_cap_value = 10\<rparr>"

subsection \<open>Containers\<close>

text \<open>
  A \<^verbatim>\<open>std::map\<close> is an association list that is read in list order, which for the map is
  the order of its keys. \<open>map_of\<close> is \<^verbatim>\<open>find\<close>; \<open>map_emplace\<close> is \<^verbatim>\<open>emplace\<close> and
  \<^verbatim>\<open>insert\<close>, which leave a key that is present alone and place a new one before the first
  greater key; \<open>map_modify\<close> changes the value behind the iterator \<^verbatim>\<open>find\<close> returned;
  \<open>map_erase\<close> is \<^verbatim>\<open>erase(key)\<close>.
\<close>

fun map_insert_sorted :: "'k::linorder \<Rightarrow> 'v \<Rightarrow> ('k \<times> 'v) list \<Rightarrow> ('k \<times> 'v) list" where
  "map_insert_sorted k v [] = [(k, v)]"
| "map_insert_sorted k v ((k', v') # m) =
     (if k < k' then (k, v) # (k', v') # m else (k', v') # map_insert_sorted k v m)"

definition map_emplace :: "'k::linorder \<Rightarrow> 'v \<Rightarrow> ('k \<times> 'v) list \<Rightarrow> ('k \<times> 'v) list" where
  "map_emplace k v m = (case map_of m k of Some _ \<Rightarrow> m | None \<Rightarrow> map_insert_sorted k v m)"

definition map_modify :: "'k \<Rightarrow> ('v \<Rightarrow> 'v) \<Rightarrow> ('k \<times> 'v) list \<Rightarrow> ('k \<times> 'v) list" where
  "map_modify k f m = map (\<lambda>(k', v'). if k' = k then (k', f v') else (k', v')) m"

definition map_erase :: "'k \<Rightarrow> ('k \<times> 'v) list \<Rightarrow> ('k \<times> 'v) list" where
  "map_erase k m = filter (\<lambda>(k', v'). k' \<noteq> k) m"

subsection \<open>Blocks, the label layer and the integrator\<close>

text \<open>
  \<^verbatim>\<open>Block<LabelVoxel>\<close> and \<^verbatim>\<open>Layer<LabelVoxel>\<close> belong to the voxblox library. A block
  is its array of \<^verbatim>\<open>voxels_per_side\<close> cubed voxels and its \<^verbatim>\<open>updated\<close> flag; a new block
  holds default voxels \<open>(0, 0)\<close>. The block hash map of a layer, and the staging map of the
  same type, is an association list from block index to block, without an order of its own.
  Blocks are held by value, where the maps of the source hold a \<^verbatim>\<open>shared_ptr\<close>: the entry
  a fold-back copies into the layer and the entry it came from are one block in the source and
  two equal blocks here, and a later write to the one in the layer does not reach the other.
  The properties below read a staging entry only in the state a fold-back returns, where the
  two agree.
\<close>

type_synonym BlockIndex = "int \<times> int \<times> int"
type_synonym VoxelIndex = "int \<times> int \<times> int"

record 'c Block =
  voxels_per_side :: nat
  voxels :: "'c LabelVoxel list"
  updated :: bool

definition new_block :: "nat \<Rightarrow> 'c::zero Block" where
  "new_block vps =
     \<lparr>voxels_per_side = vps,
      voxels = replicate (vps * vps * vps) \<lparr>label = 0, label_confidence = 0\<rparr>,
      updated = False\<rparr>"

type_synonym 'c BlockHashMap = "(BlockIndex \<times> 'c Block) list"

text \<open>
  \<^verbatim>\<open>Layer::insertBlock\<close> is \<^verbatim>\<open>unordered_map::insert\<close>: a block already present at the index
  stays.
\<close>

definition insertBlock :: "BlockIndex \<times> 'c Block \<Rightarrow> 'c BlockHashMap \<Rightarrow> 'c BlockHashMap" where
  "insertBlock block_pair block_map =
     (case map_of block_map (fst block_pair) of
        Some _ \<Rightarrow> block_map
      | None \<Rightarrow> block_map @ [block_pair])"

text \<open>
  The members of \<^verbatim>\<open>LabelTsdfIntegrator\<close>, with \<^verbatim>\<open>temp_block_map_\<close> of the base class
  \<^verbatim>\<open>MergedTsdfIntegrator\<close> (the staging map of the TSDF layer, over blocks of a type \<open>'t\<close>),
  the layer behind \<^verbatim>\<open>label_layer_\<close> and the counter behind \<^verbatim>\<open>highest_label_\<close>.
\<close>

record ('c, 't) LabelTsdfIntegrator =
  label_tsdf_config :: LabelTsdfConfig
  label_layer :: "'c BlockHashMap"
  temp_block_map :: "(BlockIndex \<times> 't) list"
  temp_label_block_map :: "'c BlockHashMap"
  highest_label :: Label
  labels_count_map :: "(Label \<times> cint) list"
  pairwise_confidence :: "(Label \<times> (Label \<times> cint) list) list"

text \<open>The constructor: every map member starts empty.\<close>

definition LabelTsdfIntegrator_new ::
  "LabelTsdfConfig \<Rightarrow> 'c BlockHashMap \<Rightarrow> Label \<Rightarrow> ('c, 't) LabelTsdfIntegrator" where
  "LabelTsdfIntegrator_new cfg layer h =
     \<lparr>label_tsdf_config = cfg, label_layer = layer, temp_block_map = [],
      temp_label_block_map = [], highest_label = h, labels_count_map = [],
      pairwise_confidence = []\<rparr>"

subsection \<open>Staging and fold-back\<close>

text \<open>
  \<^verbatim>\<open>updateLabelLayerWithStoredBlocks\<close>: the loop inserts each pair of
  \<^verbatim>\<open>temp_label_block_map_\<close> into the layer; the statement after it is
  \<^verbatim>\<open>temp_block_map_.clear()\<close>.
\<close>

definition updateLabelLayerWithStoredBlocks ::
  "('c, 't) LabelTsdfIntegrator \<Rightarrow> ('c, 't) LabelTsdfIntegrator" where
  "updateLabelLayerWithStoredBlocks st =
     st\<lparr>label_layer := fold insertBlock (temp_label_block_map st) (label_layer st),
        temp_block_map := []\<rparr>"

subsection \<open>Swapping and merging labels\<close>

text \<open>
  \<^verbatim>\<open>swapLabels\<close>: in every allocated block, the loop over the linear indices below
  \<^verbatim>\<open>vps * vps * vps\<close>.
\<close>

definition swap_voxel :: "Label \<Rightarrow> Label \<Rightarrow> nat \<Rightarrow> 'c Block \<Rightarrow> 'c Block" where
  "swap_voxel old_label new_label i block =
     (if label (voxels block ! i) = old_label
      then block\<lparr>voxels := (voxels block)[i := (voxels block ! i)\<lparr>label := new_label\<rparr>],
                 updated := True\<rparr>
      else block)"

definition swap_block :: "Label \<Rightarrow> Label \<Rightarrow> 'c Block \<Rightarrow> 'c Block" where
  "swap_block old_label new_label block =
     (let vps = voxels_per_side block
      in fold (swap_voxel old_label new_label) [0 ..< vps * vps * vps] block)"

definition swapLabels ::
  "Label \<Rightarrow> Label \<Rightarrow> ('c, 't) LabelTsdfIntegrator \<Rightarrow> ('c, 't) LabelTsdfIntegrator" where
  "swapLabels old_label new_label st =
     st\<lparr>label_layer :=
          map (\<lambda>(block_index, block). (block_index, swap_block old_label new_label block))
            (label_layer st)\<rparr>"

text \<open>
  \<^verbatim>\<open>mergeLabels\<close>. The inner loop walks \<^verbatim>\<open>confidence_map.second\<close> with the iterator
  \<^verbatim>\<open>confidence_pair_it\<close>. Where the count exceeds the threshold the body swaps the labels
  and then erases, by key, the very element the iterator stands on (\<open>merge_pair\<close>); the loop
  header goes on to increment that iterator. An erased element's iterator is invalid and
  incrementing it has no defined behaviour: the model stops there, with
  \<open>InvalidatedIterator\<close> and the state the body left.
\<close>

definition merge_pair ::
  "Label \<Rightarrow> Label \<Rightarrow> ('c, 't) LabelTsdfIntegrator \<Rightarrow> ('c, 't) LabelTsdfIntegrator" where
  "merge_pair label1 label2 st =
     (let st1 = swapLabels label1 label2 st
      in st1\<lparr>pairwise_confidence :=
               map_modify label1 (map_erase label2) (pairwise_confidence st1)\<rparr>)"

fun merge_inner ::
  "Label \<Rightarrow> (Label \<times> cint) list \<Rightarrow> ('c, 't) LabelTsdfIntegrator \<Rightarrow>
   error \<times> ('c, 't) LabelTsdfIntegrator + ('c, 't) LabelTsdfIntegrator" where
  "merge_inner label1 [] st = Inr st"
| "merge_inner label1 ((label2, count) # rest) st =
     (if sint (pairwise_confidence_threshold (label_tsdf_config st)) < sint count
      then Inl (InvalidatedIterator, merge_pair label1 label2 st)
      else merge_inner label1 rest st)"

fun merge_outer ::
  "(Label \<times> (Label \<times> cint) list) list \<Rightarrow> ('c, 't) LabelTsdfIntegrator \<Rightarrow>
   error \<times> ('c, 't) LabelTsdfIntegrator + ('c, 't) LabelTsdfIntegrator" where
  "merge_outer [] st = Inr st"
| "merge_outer ((label1, confidence_map) # rest) st =
     (case merge_inner label1 confidence_map st of
        Inl e \<Rightarrow> Inl e
      | Inr st' \<Rightarrow> merge_outer rest st')"

definition mergeLabels ::
  "('c, 't) LabelTsdfIntegrator \<Rightarrow>
   error \<times> ('c, 't) LabelTsdfIntegrator + ('c, 't) LabelTsdfIntegrator" where
  "mergeLabels st =
     (if enable_pairwise_confidence_merging (label_tsdf_config st)
      then merge_outer (pairwise_confidence st) st
      else Inr st)"

subsection \<open>Listing labels\<close>

text \<open>\<^verbatim>\<open>getLabelsList\<close>: the labels of \<^verbatim>\<open>labels_count_map_\<close> with a positive count.\<close>

definition getLabelsList :: "('c, 't) LabelTsdfIntegrator \<Rightarrow> Label list" where
  "getLabelsList st =
     map fst (filter (\<lambda>(l, count). 0 < sint count) (labels_count_map st))"

subsection \<open>Segments and the overlap table\<close>

text \<open>
  A \<^verbatim>\<open>Segment\<close> is reached through a pointer, and the same segment is in the vector of the
  batch and in the overlap table: segments live in a store from addresses to segments.
  \<^verbatim>\<open>T_G_C_\<close> is the map it applies to a point; \<^verbatim>\<open>colors_\<close> is never read here and is left
  out. The overlap table \<^verbatim>\<open>candidates\<close> maps a label to a map from segment to the count of
  its points that lie in voxels of that label; pointers are ordered by address.
\<close>

type_synonym SegmentPtr = nat

record 'p Segment =
  points_C :: "'p list"
  T_G_C :: "'p \<Rightarrow> 'p"
  labels :: "Label list"

type_synonym 'p SegmentStore = "SegmentPtr \<Rightarrow> 'p Segment"

type_synonym Candidates = "(Label \<times> (SegmentPtr \<times> nat) list) list"

subsection \<open>The candidate scan\<close>

text \<open>
  \<^verbatim>\<open>checkForSegmentLabelMergeCandidate\<close>. The comparison of the \<^verbatim>\<open>float\<close> quotient of the
  two counts with \<^verbatim>\<open>pairwise_confidence_ratio_threshold\<close> is the parameter
  \<open>ratio_exceeds\<close>. The \<^verbatim>\<open>unordered_set\<close> of labels is a list without repetitions.
\<close>

definition checkForSegmentLabelMergeCandidate ::
  "(nat \<Rightarrow> nat \<Rightarrow> bool) \<Rightarrow> Label \<Rightarrow> nat \<Rightarrow> nat \<Rightarrow> Label list \<Rightarrow> Label list" where
  "checkForSegmentLabelMergeCandidate ratio_exceeds l label_points_count segment_points_count
      merge_candidate_labels =
     (if ratio_exceeds label_points_count segment_points_count
      then List.insert l merge_candidate_labels
      else merge_candidate_labels)"

definition increaseLabelCountForSegment ::
  "LabelTsdfConfig \<Rightarrow> (nat \<Rightarrow> nat \<Rightarrow> bool) \<Rightarrow> SegmentPtr \<Rightarrow> Label \<Rightarrow> nat \<Rightarrow>
   Candidates \<times> Label list \<Rightarrow> Candidates \<times> Label list" where
  "increaseLabelCountForSegment cfg ratio_exceeds segment l segment_points_count =
     (\<lambda>(candidates, merge_candidate_labels).
        case map_of candidates l of
          Some segments \<Rightarrow>
            (case map_of segments segment of
               Some n \<Rightarrow>
                 (map_modify l (map_modify segment Suc) candidates,
                  if enable_pairwise_confidence_merging cfg
                  then checkForSegmentLabelMergeCandidate ratio_exceeds l (Suc n)
                         segment_points_count merge_candidate_labels
                  else merge_candidate_labels)
             | None \<Rightarrow>
                 (map_modify l (map_emplace segment 1) candidates, merge_candidate_labels))
        | None \<Rightarrow> (map_emplace l [(segment, 1)] candidates, merge_candidate_labels))"

text \<open>
  \<^verbatim>\<open>increasePairwiseConfidenceCount\<close>: the loops over \<open>i\<close> and over \<open>j\<close> from \<open>i + 1\<close>
  pair each element of the vector with every later one, in that order.
\<close>

definition increase_pair ::
  "Label \<Rightarrow> Label \<Rightarrow> (Label \<times> (Label \<times> cint) list) list \<Rightarrow>
   (Label \<times> (Label \<times> cint) list) list" where
  "increase_pair merge_candidate_i merge_candidate_j ledger =
     (if merge_candidate_i \<noteq> merge_candidate_j then
        (let (label1, label2) =
               (if merge_candidate_i > merge_candidate_j
                then (merge_candidate_j, merge_candidate_i)
                else (merge_candidate_i, merge_candidate_j))
         in case map_of ledger label1 of
              Some pairs \<Rightarrow>
                (case map_of pairs label2 of
                   Some _ \<Rightarrow> map_modify label1 (map_modify label2 (\<lambda>c. c + 1)) ledger
                 | None \<Rightarrow> map_modify label1 (map_emplace label2 1) ledger)
            | None \<Rightarrow> map_emplace label1 [(label2, 1)] ledger)
      else ledger)"

fun increasePairwiseConfidenceCount ::
  "Label list \<Rightarrow> (Label \<times> (Label \<times> cint) list) list \<Rightarrow>
   (Label \<times> (Label \<times> cint) list) list" where
  "increasePairwiseConfidenceCount [] ledger = ledger"
| "increasePairwiseConfidenceCount (li # later) ledger =
     increasePairwiseConfidenceCount later (fold (increase_pair li) later ledger)"

text \<open>
  \<^verbatim>\<open>computeSegmentLabelCandidates\<close>. \<open>grid\<close> stands for the two coordinate look-ups of
  voxblox, \<^verbatim>\<open>getBlockPtrByCoordinates\<close> and \<^verbatim>\<open>getVoxelByCoordinates\<close>, which are floating
  point: it gives the block index of a world point and the linear index of its voxel in that
  block. \<open>scan_point\<close> is the body of the loop over the points, on the flag, the table and the
  set; \<open>scan_points\<close> is the loop.
\<close>

definition scan_point ::
  "LabelTsdfConfig \<Rightarrow> (nat \<Rightarrow> nat \<Rightarrow> bool) \<Rightarrow> ('p \<Rightarrow> BlockIndex \<times> nat) \<Rightarrow>
   'c BlockHashMap \<Rightarrow> SegmentPtr \<Rightarrow> 'p Segment \<Rightarrow> 'p \<Rightarrow>
   bool \<times> Candidates \<times> Label list \<Rightarrow> bool \<times> Candidates \<times> Label list" where
  "scan_point cfg ratio_exceeds grid layer segment seg point_C =
     (\<lambda>(candidate_label_exists, tables).
        let point_G = T_G_C seg point_C
        in case map_of layer (fst (grid point_G)) of
             None \<Rightarrow> (candidate_label_exists, tables)
           | Some block \<Rightarrow>
               (let voxel = voxels block ! snd (grid point_G)
                in if label voxel \<noteq> 0
                   then (True,
                         increaseLabelCountForSegment cfg ratio_exceeds segment (label voxel)
                           (length (points_C seg)) tables)
                   else (candidate_label_exists, tables)))"

definition scan_points ::
  "LabelTsdfConfig \<Rightarrow> (nat \<Rightarrow> nat \<Rightarrow> bool) \<Rightarrow> ('p \<Rightarrow> BlockIndex \<times> nat) \<Rightarrow>
   'c BlockHashMap \<Rightarrow> SegmentPtr \<Rightarrow> 'p Segment \<Rightarrow> Candidates \<Rightarrow>
   bool \<times> Candidates \<times> Label list" where
  "scan_points cfg ratio_exceeds grid layer segment seg candidates =
     fold (scan_point cfg ratio_exceeds grid layer segment seg) (points_C seg)
       (False, candidates, [])"

definition computeSegmentLabelCandidates ::
  "(nat \<Rightarrow> nat \<Rightarrow> bool) \<Rightarrow> ('p \<Rightarrow> BlockIndex \<times> nat) \<Rightarrow> 'p SegmentStore \<Rightarrow> SegmentPtr \<Rightarrow>
   Candidates \<Rightarrow> ('c, 't) LabelTsdfIntegrator \<Rightarrow>
   error + Candidates \<times> ('c, 't) LabelTsdfIntegrator" where
  "computeSegmentLabelCandidates ratio_exceeds grid store segment candidates st =
     (let cfg = label_tsdf_config st;
          seg = store segment;
          (candidate_label_exists, candidates1, merge_candidate_labels) =
             scan_points cfg ratio_exceeds grid (label_layer st) segment seg candidates;
          st1 = (if enable_pairwise_confidence_merging cfg
                 then st\<lparr>pairwise_confidence :=
                          increasePairwiseConfidenceCount merge_candidate_labels
                            (pairwise_confidence st)\<rparr>
                 else st)
      in if \<not> candidate_label_exists then
           (case getFreshLabel (highest_label st1) of
              Inl e \<Rightarrow> Inl e
            | Inr (fresh_label, h) \<Rightarrow>
                Inr (map_emplace fresh_label [(segment, length (points_C seg))] candidates1,
                     st1\<lparr>highest_label := h\<rparr>))
         else Inr (candidates1, st1))"

subsection \<open>The greedy assignment\<close>

text \<open>
  \<^verbatim>\<open>getNextSegmentLabelPair\<close>. \<^verbatim>\<open>max_segment\<close> and \<^verbatim>\<open>max_label\<close> have no value until the
  first pair is taken: the accumulator is \<^verbatim>\<open>max_count\<close> and the optional pair. The result
  \<open>None\<close> is the return value \<^verbatim>\<open>false\<close>.
\<close>

definition next_pair_step ::
  "SegmentPtr set \<Rightarrow> Label \<Rightarrow> SegmentPtr \<times> nat \<Rightarrow>
   nat \<times> (SegmentPtr \<times> Label) option \<Rightarrow> nat \<times> (SegmentPtr \<times> Label) option" where
  "next_pair_step labelled_segments l = (\<lambda>(segment, count) (max_count, max_pair).
     if count > max_count \<and> segment \<notin> labelled_segments
     then (count, Some (segment, l))
     else (max_count, max_pair))"

definition getNextSegmentLabelPair ::
  "Candidates \<Rightarrow> SegmentPtr set \<Rightarrow> (SegmentPtr \<times> Label) option" where
  "getNextSegmentLabelPair candidates labelled_segments =
     (let (max_count, max_pair) =
            fold (\<lambda>(l, segments). fold (next_pair_step labelled_segments l) segments)
              candidates (0, None)
      in if max_count = 0 then None else max_pair)"

text \<open>
  Whatever pair the search returns was taken from the table at a segment that is not
  labelled yet. The loop below needs it to end.
\<close>

lemma next_pair_inner_inv:
  assumes "fold (next_pair_step labelled l) segments acc = (n, Some p)"
    and "\<And>p0. snd acc = Some p0 \<Longrightarrow> Q p0"
    and "\<And>s. s \<notin> labelled \<Longrightarrow> Q (s, l)"
  shows "Q p"
  using assms(1,2)
proof (induction segments arbitrary: acc)
  case Nil
  then show ?case by (cases acc) simp
next
  case (Cons x segments)
  show ?case
  proof (rule Cons.IH)
    show "fold (next_pair_step labelled l) segments (next_pair_step labelled l x acc)
            = (n, Some p)"
      using Cons.prems(1) by simp
    show "Q p0" if "snd (next_pair_step labelled l x acc) = Some p0" for p0
      using that Cons.prems(2) assms(3)
      by (cases x; cases acc) (auto simp: next_pair_step_def split: if_splits)
  qed
qed

lemma next_pair_outer_inv:
  assumes "fold (\<lambda>(l, segments). fold (next_pair_step labelled l) segments) candidates acc
             = (n, Some p)"
    and "\<And>p0. snd acc = Some p0 \<Longrightarrow> Q p0"
    and "\<And>s l. s \<notin> labelled \<Longrightarrow> l \<in> fst ` set candidates \<Longrightarrow> Q (s, l)"
  shows "Q p"
  using assms
proof (induction candidates arbitrary: acc)
  case Nil
  then show ?case by (cases acc) simp
next
  case (Cons c candidates)
  obtain l segments where c: "c = (l, segments)" by (cases c)
  obtain m q where r: "fold (next_pair_step labelled l) segments acc = (m, q)"
    by (cases "fold (next_pair_step labelled l) segments acc")
  show ?case
  proof (rule Cons.IH)
    show "fold (\<lambda>(l, segments). fold (next_pair_step labelled l) segments) candidates (m, q)
            = (n, Some p)"
      using Cons.prems(1) c r by simp
    show "Q p0" if "snd (m, q) = Some p0" for p0
    proof (rule next_pair_inner_inv [of labelled l segments acc m p0 Q])
      show "fold (next_pair_step labelled l) segments acc = (m, Some p0)"
        using r that by simp
      show "Q p1" if "snd acc = Some p1" for p1
        using that by (rule Cons.prems(2))
      show "Q (s, l)" if "s \<notin> labelled" for s
        using that c by (intro Cons.prems(3)) simp_all
    qed
    show "Q (s, l')" if "s \<notin> labelled" "l' \<in> fst ` set candidates" for s l'
      using that by (intro Cons.prems(3)) simp_all
  qed
qed

lemma getNextSegmentLabelPair_Some:
  assumes "getNextSegmentLabelPair candidates labelled = Some (s, l)"
  shows "l \<in> fst ` set candidates" and "s \<notin> labelled"
proof -
  obtain m q where r:
    "fold (\<lambda>(l, segments). fold (next_pair_step labelled l) segments) candidates (0, None)
       = (m, q)"
    by (cases "fold (\<lambda>(l, segments). fold (next_pair_step labelled l) segments) candidates
                 (0, None)")
  with assms have "q = Some (s, l)"
    by (simp add: getNextSegmentLabelPair_def split: if_splits)
  with r have "(\<lambda>(s, l). l \<in> fst ` set candidates \<and> s \<notin> labelled) (s, l)"
    by (intro next_pair_outer_inv
          [of labelled candidates "(0, None)" m "(s, l)"
              "\<lambda>(s, l). l \<in> fst ` set candidates \<and> s \<notin> labelled"]) simp_all
  then show "l \<in> fst ` set candidates" and "s \<notin> labelled" by simp_all
qed

lemma map_erase_shorter:
  assumes "k \<in> fst ` set m"
  shows "length (map_erase k m) < length m"
proof -
  from assms obtain v where "(k, v) \<in> set m" by auto
  then show ?thesis
    unfolding map_erase_def by (rule length_filter_less) simp
qed

text \<open>
  \<^verbatim>\<open>decideLabelPointClouds\<close>. \<open>assign_label\<close> is the loop that pushes the label once per
  point of the segment. \<open>greedy_loop\<close> is the \<^verbatim>\<open>while\<close> loop on the table, the set
  \<^verbatim>\<open>labelled_segments\<close> and the segments; each turn erases a label of the table, so the
  loop ends. \<open>label_unclaimed\<close> is the loop over \<^verbatim>\<open>segments_to_integrate\<close>.
\<close>

definition assign_label :: "Label \<Rightarrow> 'p Segment \<Rightarrow> 'p Segment" where
  "assign_label l seg = seg\<lparr>labels := labels seg @ replicate (length (points_C seg)) l\<rparr>"

function greedy_loop ::
  "Candidates \<Rightarrow> SegmentPtr set \<Rightarrow> 'p SegmentStore \<Rightarrow>
   Candidates \<times> SegmentPtr set \<times> 'p SegmentStore" where
  "greedy_loop candidates labelled_segments store =
     (case getNextSegmentLabelPair candidates labelled_segments of
        None \<Rightarrow> (candidates, labelled_segments, store)
      | Some (segment, l) \<Rightarrow>
          greedy_loop (map_erase l candidates) (insert segment labelled_segments)
            (store(segment := assign_label l (store segment))))"
  by pat_completeness auto
termination
  by (relation "measure (\<lambda>(candidates, _, _). length candidates)")
    (auto dest!: getNextSegmentLabelPair_Some(1) intro: map_erase_shorter)

declare greedy_loop.simps [simp del]

fun label_unclaimed ::
  "SegmentPtr list \<Rightarrow> SegmentPtr set \<times> 'p SegmentStore \<times> Label \<Rightarrow>
   error + SegmentPtr set \<times> 'p SegmentStore \<times> Label" where
  "label_unclaimed [] acc = Inr acc"
| "label_unclaimed (segment # rest) (labelled_segments, store, h) =
     (if segment \<notin> labelled_segments then
        (case getFreshLabel h of
           Inl e \<Rightarrow> Inl e
         | Inr (fresh, h') \<Rightarrow>
             label_unclaimed rest
               (insert segment labelled_segments,
                store(segment := assign_label fresh (store segment)), h'))
      else label_unclaimed rest (labelled_segments, store, h))"

definition decideLabelPointClouds ::
  "SegmentPtr list \<Rightarrow> Candidates \<Rightarrow> 'p SegmentStore \<Rightarrow> ('c, 't) LabelTsdfIntegrator \<Rightarrow>
   error + Candidates \<times> 'p SegmentStore \<times> ('c, 't) LabelTsdfIntegrator" where
  "decideLabelPointClouds segments_to_integrate candidates store st =
     (let (candidates1, labelled_segments, store1) = greedy_loop candidates {} store
      in case label_unclaimed segments_to_integrate
                (labelled_segments, store1, highest_label st) of
           Inl e \<Rightarrow> Inl e
         | Inr (_, store2, h) \<Rightarrow> Inr (candidates1, store2, st\<lparr>highest_label := h\<rparr>))"

subsection \<open>Voxel writes during integration\<close>

text \<open>
  A pointer to a block names the map that holds the block and its index.
  \<^verbatim>\<open>getBlockPtrByIndex\<close> of the layer gives such a pointer, or none.
\<close>

datatype BlockPtr = InLayer BlockIndex | InTemp BlockIndex

definition getBlockPtrByIndex :: "'c BlockHashMap \<Rightarrow> BlockIndex \<Rightarrow> BlockPtr option" where
  "getBlockPtrByIndex layer block_idx =
     (case map_of layer block_idx of None \<Rightarrow> None | Some _ \<Rightarrow> Some (InLayer block_idx))"

definition block_at :: "BlockPtr \<Rightarrow> ('c, 't) LabelTsdfIntegrator \<Rightarrow> 'c Block option" where
  "block_at block_ptr st =
     (case block_ptr of
        InLayer block_idx \<Rightarrow> map_of (label_layer st) block_idx
      | InTemp block_idx \<Rightarrow> map_of (temp_label_block_map st) block_idx)"

definition modify_block ::
  "BlockPtr \<Rightarrow> ('c Block \<Rightarrow> 'c Block) \<Rightarrow> ('c, 't) LabelTsdfIntegrator \<Rightarrow>
   ('c, 't) LabelTsdfIntegrator" where
  "modify_block block_ptr f st =
     (case block_ptr of
        InLayer block_idx \<Rightarrow> st\<lparr>label_layer := map_modify block_idx f (label_layer st)\<rparr>
      | InTemp block_idx \<Rightarrow>
          st\<lparr>temp_label_block_map := map_modify block_idx f (temp_label_block_map st)\<rparr>)"

text \<open>
  \<^verbatim>\<open>allocateStorageAndGetLabelVoxelPtr\<close>. The index arithmetic of voxblox is given by three
  parameters: \<open>vps\<close> is \<^verbatim>\<open>voxels_per_side_\<close>, \<open>block_of\<close> is
  \<^verbatim>\<open>getBlockIndexFromGlobalVoxelIndex\<close> and \<open>linear_of\<close> is the linear index, in its
  block, of the voxel that \<^verbatim>\<open>getLocalFromGlobalVoxelIndex\<close> finds. The result is the voxel
  pointer (block pointer and linear index), the updated \<^verbatim>\<open>*last_block\<close> and
  \<^verbatim>\<open>*last_block_idx\<close>, and the integrator.
\<close>

definition allocateStorageAndGetLabelVoxelPtr ::
  "nat \<Rightarrow> (VoxelIndex \<Rightarrow> BlockIndex) \<Rightarrow> (VoxelIndex \<Rightarrow> nat) \<Rightarrow> VoxelIndex \<Rightarrow>
   BlockPtr option \<times> BlockIndex \<Rightarrow> ('c::zero, 't) LabelTsdfIntegrator \<Rightarrow>
   (BlockPtr \<times> nat) \<times> (BlockPtr option \<times> BlockIndex) \<times> ('c, 't) LabelTsdfIntegrator" where
  "allocateStorageAndGetLabelVoxelPtr vps block_of linear_of global_voxel_idx =
     (\<lambda>(last_block, last_block_idx) st.
        let block_idx = block_of global_voxel_idx;
            (last_block1, last_block_idx1) =
              (if block_idx \<noteq> last_block_idx \<or> last_block = None
               then (getBlockPtrByIndex (label_layer st) block_idx, block_idx)
               else (last_block, last_block_idx));
            (last_block2, st1) =
              (case last_block1 of
                 Some block_ptr \<Rightarrow> (block_ptr, st)
               | None \<Rightarrow>
                   (case map_of (temp_label_block_map st) block_idx of
                      Some _ \<Rightarrow> (InTemp block_idx, st)
                    | None \<Rightarrow>
                        (InTemp block_idx,
                         st\<lparr>temp_label_block_map :=
                              temp_label_block_map st @ [(block_idx, new_block vps)]\<rparr>)));
            st2 = modify_block last_block2 (\<lambda>block. block\<lparr>updated := True\<rparr>) st1
        in ((last_block2, linear_of global_voxel_idx), (Some last_block2, last_block_idx1), st2))"

text \<open>
  \<^verbatim>\<open>updateLabelVoxel\<close> on the voxel behind a pointer and on the counter of the integrator.
  It is applied to the pointers that \<^verbatim>\<open>allocateStorageAndGetLabelVoxelPtr\<close> returns, which
  resolve; for a pointer that does not, the model leaves the integrator as it is.
\<close>

definition updateLabelVoxel_at ::
  "BlockPtr \<times> nat \<Rightarrow> Label \<Rightarrow> 'c::len word \<Rightarrow> ('c word, 't) LabelTsdfIntegrator \<Rightarrow>
   ('c word, 't) LabelTsdfIntegrator" where
  "updateLabelVoxel_at = (\<lambda>(block_ptr, i) l confidence st.
     case block_at block_ptr st of
       None \<Rightarrow> st
     | Some block \<Rightarrow>
         (let (label_voxel, h) =
                updateLabelVoxel (label_tsdf_config st) l confidence
                  (voxels block ! i, highest_label st)
          in (modify_block block_ptr
                (\<lambda>block. block\<lparr>voxels := (voxels block)[i := label_voxel]\<rparr>) st)
               \<lparr>highest_label := h\<rparr>))"

text \<open>
  The label half of the loop body of \<^verbatim>\<open>integrateVoxel\<close>: the voxel of a global index is
  allocated, with \<^verbatim>\<open>label_block\<close> null, and updated. \<^verbatim>\<open>integrateVoxel\<close> does so with
  confidence 1 for every index the ray caster yields and anti-grazing lets through (\<open>ray\<close>);
  the TSDF half touches no member of the record but \<^verbatim>\<open>temp_block_map_\<close>.
\<close>

definition integrate_label_voxel ::
  "nat \<Rightarrow> (VoxelIndex \<Rightarrow> BlockIndex) \<Rightarrow> (VoxelIndex \<Rightarrow> nat) \<Rightarrow> Label \<Rightarrow> 'c::len word \<Rightarrow>
   VoxelIndex \<Rightarrow> ('c word, 't) LabelTsdfIntegrator \<Rightarrow> ('c word, 't) LabelTsdfIntegrator" where
  "integrate_label_voxel vps block_of linear_of merged_label confidence global_voxel_idx st =
     (let (label_voxel, _, st1) =
            allocateStorageAndGetLabelVoxelPtr vps block_of linear_of global_voxel_idx
              (None, block_of global_voxel_idx) st
      in updateLabelVoxel_at label_voxel merged_label confidence st1)"

definition integrateVoxel ::
  "nat \<Rightarrow> (VoxelIndex \<Rightarrow> BlockIndex) \<Rightarrow> (VoxelIndex \<Rightarrow> nat) \<Rightarrow> Label \<Rightarrow> VoxelIndex list \<Rightarrow>
   ('c::len word, 't) LabelTsdfIntegrator \<Rightarrow> ('c word, 't) LabelTsdfIntegrator" where
  "integrateVoxel vps block_of linear_of merged_label ray st =
     fold (integrate_label_voxel vps block_of linear_of merged_label 1) ray st"

subsection \<open>Sequences of operations\<close>

text \<open>
  The operations of the integrator with their arguments, and a run of a list of them from a
  state. The segments and the overlap table belong to the caller, who passes them to each
  call. A run ends where a \<^verbatim>\<open>CHECK\<close> fails, as the process does. It does not end at a
  \<^verbatim>\<open>mergeLabels\<close> that reaches the increment of the erased iterator: a program that gets
  past the increment goes on from the state the loop body left, into the rest of the loop,
  for which a further \<open>MergeLabels\<close> in the list stands, or back to its caller, and the
  run goes on from that state.
\<close>

datatype ('p, 'c) operation =
    ComputeSegmentLabelCandidates "nat \<Rightarrow> nat \<Rightarrow> bool" "'p \<Rightarrow> BlockIndex \<times> nat"
      "'p SegmentStore" SegmentPtr Candidates
  | DecideLabelPointClouds "SegmentPtr list" Candidates "'p SegmentStore"
  | IntegrateLabelVoxel nat "VoxelIndex \<Rightarrow> BlockIndex" "VoxelIndex \<Rightarrow> nat" Label 'c VoxelIndex
  | IntegrateVoxel nat "VoxelIndex \<Rightarrow> BlockIndex" "VoxelIndex \<Rightarrow> nat" Label "VoxelIndex list"
  | UpdateLabelLayerWithStoredBlocks
  | SwapLabels Label Label
  | MergeLabels
  | GetFreshLabel

fun execute ::
  "('p, 'c::len word) operation \<Rightarrow> ('c word, 't) LabelTsdfIntegrator \<Rightarrow>
   error + ('c word, 't) LabelTsdfIntegrator" where
  "execute (ComputeSegmentLabelCandidates ratio_exceeds grid store segment candidates) st =
     (case computeSegmentLabelCandidates ratio_exceeds grid store segment candidates st of
        Inl e \<Rightarrow> Inl e
      | Inr (_, st') \<Rightarrow> Inr st')"
| "execute (DecideLabelPointClouds segments_to_integrate candidates store) st =
     (case decideLabelPointClouds segments_to_integrate candidates store st of
        Inl e \<Rightarrow> Inl e
      | Inr (_, _, st') \<Rightarrow> Inr st')"
| "execute (IntegrateLabelVoxel vps block_of linear_of l confidence global_voxel_idx) st =
     Inr (integrate_label_voxel vps block_of linear_of l confidence global_voxel_idx st)"
| "execute (IntegrateVoxel vps block_of linear_of l ray) st =
     Inr (integrateVoxel vps block_of linear_of l ray st)"
| "execute UpdateLabelLayerWithStoredBlocks st = Inr (updateLabelLayerWithStoredBlocks st)"
| "execute (SwapLabels old_label new_label) st = Inr (swapLabels old_label new_label st)"
| "execute MergeLabels st =
     (case mergeLabels st of Inl (_, st') \<Rightarrow> Inr st' | Inr st' \<Rightarrow> Inr st')"
| "execute GetFreshLabel st =
     (case getFreshLabel (highest_label st) of
        Inl e \<Rightarrow> Inl e
      | Inr (_, h) \<Rightarrow> Inr (st\<lparr>highest_label := h\<rparr>))"

fun run ::
  "('p, 'c::len word) operation list \<Rightarrow> ('c word, 't) LabelTsdfIntegrator \<Rightarrow>
   error + ('c word, 't) LabelTsdfIntegrator" where
  "run [] st = Inr st"
| "run (operation # operations) st =
     (case execute operation st of Inl e \<Rightarrow> Inl e | Inr st' \<Rightarrow> run operations st')"

section \<open>Properties\<close>

subsection \<open>Minting\<close>

lemma word_succ_no_wrap:
  fixes h :: "'a::len word"
  assumes "h \<noteq> - 1"
  shows "unat (h + 1) = Suc (unat h)" and "h < h + 1"
proof -
  have "1 + h \<noteq> 0"
    using assms by (metis add.commute add_eq_0_iff2)
  then show "unat (h + 1) = Suc (unat h)"
    using unatSuc [of h] by (simp add: add.commute)
  then show "h < h + 1"
    by (simp add: word_less_nat_alt)
qed

lemma below_uint_max:
  fixes h :: Label
  shows "unat h < 4294967295 \<longleftrightarrow> h \<noteq> - 1"
proof -
  have "unat h < 4294967296" using unsigned_less [of h, where ?'a = nat] by simp
  moreover have "unat (- 1 :: Label) = 4294967295"
    by (simp add: unsigned_minus_1_eq_mask mask_eq_exp_minus_1)
  ultimately show ?thesis
    using word_unat_eq_iff [of h "- 1"] by auto
qed

lemma getFreshLabel_Inr:
  fixes h :: Label
  shows "getFreshLabel h = Inr (l, h') \<Longrightarrow> h \<noteq> - 1 \<and> l = h + 1 \<and> h' = h + 1 \<and> h < h'"
  using word_succ_no_wrap(2) [of h]
  by (auto simp: getFreshLabel_def below_uint_max split: if_splits)

lemma getFreshLabel_room:
  fixes h :: Label
  shows "h \<noteq> - 1 \<Longrightarrow> getFreshLabel h = Inr (h + 1, h + 1)"
  by (simp add: getFreshLabel_def below_uint_max)







subsection \<open>The voxel update rule\<close>

lemma cap_not_exceeded_small:
  fixes c :: "'c::len word"
  assumes "2 \<le> sint cap" and "uint c \<le> 2"
  shows "\<not> cap_exceeded c cap"
proof (cases "LENGTH('c) < 32")
  case True
  then show ?thesis using assms by (simp add: cap_exceeded_def)
next
  case False
  have "sint cap < 2 ^ 31"
    using sint_lt [of cap] by simp
  also have "(2::int) ^ 31 \<le> 2 ^ LENGTH('c)"
    using False by (intro power_increasing) simp_all
  finally have "sint cap mod 2 ^ LENGTH('c) = sint cap"
    using assms(1) by simp
  then show ?thesis using False assms by (simp add: cap_exceeded_def)
qed

lemma uint_one_plus_one_le: "uint (1 + 1 :: 'c::len word) \<le> 2"
  using uint_add_le [of "1 :: 'c word" 1] by simp

lemma uint_one_le: "uint (1 :: 'c::len word) \<le> 2"
  by simp

text \<open>
  C5, as stated, fails when the confidence is capped below 2: with
  \<^verbatim>\<open>cap_confidence\<close> set and \<^verbatim>\<open>confidence_cap_value\<close> 1, label 1 written once and label 2
  three times leave the voxel at label 2 with confidence 1.
\<close>

theorem contest_flip_counterexample:
  "fst (updateLabelVoxel (default_config\<lparr>cap_confidence := True, confidence_cap_value := 1\<rparr>) 2 1
       (updateLabelVoxel (default_config\<lparr>cap_confidence := True, confidence_cap_value := 1\<rparr>) 2 1
       (updateLabelVoxel (default_config\<lparr>cap_confidence := True, confidence_cap_value := 1\<rparr>) 2 1
       (updateLabelVoxel (default_config\<lparr>cap_confidence := True, confidence_cap_value := 1\<rparr>) 1 1
          (\<lparr>label = 0, label_confidence = 0 :: 16 word\<rparr>, 0)))))
   \<noteq> \<lparr>label = 2, label_confidence = 2\<rparr>"
  by (simp add: updateLabelVoxel_def cap_exceeded_def default_config_def)

text \<open>
  C5, amended. For distinct labels \<open>A\<close> and \<open>B\<close>, with the cap off or at least 2: from the
  unobserved voxel \<open>(0, 0)\<close>, writing \<open>A\<close> with increment 1 gives \<open>(A, 1)\<close>; then the first
  write of \<open>B\<close> gives \<open>(A, 0)\<close>, the second \<open>(B, 1)\<close> and the third \<open>(B, 2)\<close>.
\<close>

theorem contest_flip:
  fixes h :: Label and cfg :: LabelTsdfConfig
  assumes "A \<noteq> B"
    and "cap_confidence cfg \<longrightarrow> 2 \<le> sint (confidence_cap_value cfg)"
  defines "s1 \<equiv> updateLabelVoxel cfg A 1 (\<lparr>label = 0, label_confidence = 0 :: 'c::len word\<rparr>, h)"
  defines "s2 \<equiv> updateLabelVoxel cfg B 1 s1"
  defines "s3 \<equiv> updateLabelVoxel cfg B 1 s2"
  defines "s4 \<equiv> updateLabelVoxel cfg B 1 s3"
  shows "fst s1 = \<lparr>label = A, label_confidence = 1\<rparr> \<and>
         fst s2 = \<lparr>label = A, label_confidence = 0\<rparr> \<and>
         fst s3 = \<lparr>label = B, label_confidence = 1\<rparr> \<and>
         fst s4 = \<lparr>label = B, label_confidence = 2\<rparr>"
proof -
  have n1: "\<not> (cap_confidence cfg \<and> cap_exceeded (1 :: 'c word) (confidence_cap_value cfg))"
    using assms(2) cap_not_exceeded_small [OF _ uint_one_le] by blast
  have n2: "\<not> (cap_confidence cfg \<and> cap_exceeded (1 + 1 :: 'c word) (confidence_cap_value cfg))"
    using assms(2) cap_not_exceeded_small [OF _ uint_one_plus_one_le] by blast
  have 1: "fst s1 = \<lparr>label = A, label_confidence = 1\<rparr>"
    using n1 by (auto simp: s1_def updateLabelVoxel_def Let_def)
  have 2: "fst s2 = \<lparr>label = A, label_confidence = 0\<rparr>"
    using 1 \<open>A \<noteq> B\<close> by (cases s1) (simp add: s2_def updateLabelVoxel_def)
  have 3: "fst s3 = \<lparr>label = B, label_confidence = 1\<rparr>"
    using 2 \<open>A \<noteq> B\<close> by (cases s2) (simp add: s3_def updateLabelVoxel_def)
  have 4: "fst s4 = \<lparr>label = B, label_confidence = 2\<rparr>"
    using 3 n2 by (cases s3) (auto simp: s4_def updateLabelVoxel_def Let_def)
  from 1 2 3 4 show ?thesis by simp
qed

theorem contest_flip_witness:
  "fst (updateLabelVoxel (default_config\<lparr>cap_confidence := True\<rparr>) 8 1
       (updateLabelVoxel (default_config\<lparr>cap_confidence := True\<rparr>) 8 1
       (updateLabelVoxel (default_config\<lparr>cap_confidence := True\<rparr>) 8 1
       (updateLabelVoxel (default_config\<lparr>cap_confidence := True\<rparr>) 7 1
          (\<lparr>label = 0, label_confidence = 0 :: 16 word\<rparr>, 0)))))
   = \<lparr>label = 8, label_confidence = 2\<rparr>"
  using contest_flip [of 7 8 "default_config\<lparr>cap_confidence := True\<rparr>" 0, where 'c = 16]
  by (simp add: default_config_def)

text \<open>
  C7, as stated, fails where the voxel already holds the incoming label: the voxel \<open>(5, 0)\<close>
  written with label 5 while the counter is 3 becomes \<open>(5, 1)\<close> and the counter stays 3,
  below the label.
\<close>

theorem updateLabelVoxel_counter_counterexample:
  "label_confidence \<lparr>label = 5, label_confidence = 0 :: 16 word\<rparr> = 0 \<and> (3 :: Label) < 5 \<and>
   snd (updateLabelVoxel default_config 5 1 (\<lparr>label = 5, label_confidence = 0 :: 16 word\<rparr>, 3))
     \<noteq> 5"
  by (simp add: updateLabelVoxel_def default_config_def)

text \<open>
  C7, amended. A voxel of confidence 0 whose label differs from the incoming \<open>L\<close> becomes
  \<open>(L, c)\<close> and the counter becomes the larger of itself and \<open>L\<close>. A voxel that already
  holds \<open>L\<close> keeps it, its confidence grows by \<open>c\<close> (and is set to the cap where the cap is on
  and exceeded), and the counter is left as it is. In every case the counter does not
  decrease, and a voxel whose label was at most the counter before the call has a label at
  most the counter after it.
\<close>

theorem updateLabelVoxel_open_voxel:
  fixes v :: "'c::len word LabelVoxel"
  assumes "updateLabelVoxel cfg L c (v, h) = (v', h')"
  shows "(label v \<noteq> L \<and> label_confidence v = 0 \<longrightarrow>
            v' = \<lparr>label = L, label_confidence = c\<rparr> \<and> h' = max h L) \<and>
         (label v = L \<longrightarrow>
            label v' = L \<and> h' = h \<and>
            label_confidence v' =
              (if cap_confidence cfg \<and>
                  cap_exceeded (label_confidence v + c) (confidence_cap_value cfg)
               then word_of_int (sint (confidence_cap_value cfg))
               else label_confidence v + c)) \<and>
         h \<le> h' \<and> (label v \<le> h \<longrightarrow> label v' \<le> h')"
  using assms
  by (auto simp: updateLabelVoxel_def Let_def max_def split: if_splits)

theorem updateLabelVoxel_open_voxel_witness:
  "updateLabelVoxel default_config 9 1 (\<lparr>label = 4, label_confidence = 0 :: 16 word\<rparr>, 6)
     = (\<lparr>label = 9, label_confidence = 1\<rparr>, 9) \<and> (4 :: Label) \<le> 6 \<and> (6 :: Label) \<le> 9"
  using updateLabelVoxel_open_voxel [of default_config 9 "1 :: 16 word"
      "\<lparr>label = 4, label_confidence = 0\<rparr>" 6 "\<lparr>label = 9, label_confidence = 1\<rparr>" 9]
  by (simp add: updateLabelVoxel_def default_config_def)

subsection \<open>Staging and fold-back\<close>

text \<open>What the fold-back does to the two label maps, for every state.\<close>

lemma foldback_keeps_staging:
  "temp_label_block_map (updateLabelLayerWithStoredBlocks st) = temp_label_block_map st"
  by (simp add: updateLabelLayerWithStoredBlocks_def)

lemma keys_insertBlock: "fst ` set (insertBlock p m) = insert (fst p) (fst ` set m)"
proof (cases "map_of m (fst p)")
  case None
  then show ?thesis by (simp add: insertBlock_def)
next
  case (Some b)
  then have "fst p \<in> fst ` set m"
    by (metis map_of_SomeD fst_conv image_eqI)
  then have "insert (fst p) (fst ` set m) = fst ` set m" by (rule insert_absorb)
  with Some show ?thesis by (simp add: insertBlock_def)
qed

lemma keys_fold_insertBlock:
  "fst ` set (fold insertBlock ps m) = fst ` set ps \<union> fst ` set m"
  by (induction ps arbitrary: m) (auto simp: keys_insertBlock)

lemma foldback_installs:
  "fst ` set (label_layer (updateLabelLayerWithStoredBlocks st))
     = fst ` set (temp_label_block_map st) \<union> fst ` set (label_layer st)"
  by (simp add: updateLabelLayerWithStoredBlocks_def keys_fold_insertBlock)

text \<open>
  C1. The fold-back installs every staged block, but the map it clears is
  \<^verbatim>\<open>temp_block_map_\<close>, the staging map of the TSDF layer, and the label staging map
  keeps every entry. At a staging map with one block at \<open>(0, 0, 0)\<close> and an empty layer:
  after the fold-back the layer holds the block at \<open>(0, 0, 0)\<close> and so does the staging
  map.
\<close>

theorem foldback_leaves_label_staging_map:
  "map_of (label_layer (updateLabelLayerWithStoredBlocks
      ((LabelTsdfIntegrator_new default_config [] 0 :: (16 word, unit) LabelTsdfIntegrator)
         \<lparr>temp_label_block_map := [((0, 0, 0), new_block 1)]\<rparr>))) (0, 0, 0)
     = Some (new_block 1) \<and>
   temp_label_block_map (updateLabelLayerWithStoredBlocks
      ((LabelTsdfIntegrator_new default_config [] 0 :: (16 word, unit) LabelTsdfIntegrator)
         \<lparr>temp_label_block_map := [((0, 0, 0), new_block 1)]\<rparr>))
     = [((0, 0, 0), new_block 1)]"
  by (simp add: updateLabelLayerWithStoredBlocks_def LabelTsdfIntegrator_new_def insertBlock_def)

subsection \<open>Swapping and merging labels\<close>

text \<open>What \<^verbatim>\<open>swapLabels\<close> does to one voxel.\<close>

definition relabel :: "Label \<Rightarrow> Label \<Rightarrow> 'c LabelVoxel \<Rightarrow> 'c LabelVoxel" where
  "relabel old_label new_label v = (if label v = old_label then v\<lparr>label := new_label\<rparr> else v)"

lemma swap_voxel_voxels:
  "i < length (voxels b) \<Longrightarrow>
   voxels (swap_voxel old new i b) = (voxels b)[i := relabel old new (voxels b ! i)]"
  by (simp add: swap_voxel_def relabel_def)

lemma swap_fold_voxels:
  "k \<le> length (voxels b) \<Longrightarrow>
   voxels (fold (swap_voxel old new) [0 ..< k] b)
     = map (relabel old new) (take k (voxels b)) @ drop k (voxels b)"
proof (induction k)
  case 0
  then show ?case by simp
next
  case (Suc k)
  let ?b = "fold (swap_voxel old new) [0 ..< k] b"
  have IH: "voxels ?b = map (relabel old new) (take k (voxels b)) @ drop k (voxels b)"
    using Suc by simp
  have len: "length (voxels ?b) = length (voxels b)"
    by (simp add: IH)
  have k: "k < length (voxels b)" using Suc.prems by simp
  have at: "voxels ?b ! k = voxels b ! k"
    using k by (simp add: IH nth_append)
  have "voxels (swap_voxel old new k ?b) = (voxels ?b)[k := relabel old new (voxels b ! k)]"
    using swap_voxel_voxels [of k ?b old new] k len at by simp
  also have "\<dots> = map (relabel old new) (take (Suc k) (voxels b)) @ drop (Suc k) (voxels b)"
    using k by (simp add: IH take_Suc_conv_app_nth list_update_append Cons_nth_drop_Suc [symmetric])
  finally show ?case by simp
qed

lemma swap_block_voxels:
  assumes "length (voxels b) = voxels_per_side b * voxels_per_side b * voxels_per_side b"
  shows "voxels (swap_block old new b) = map (relabel old new) (voxels b)"
  using swap_fold_voxels [of "length (voxels b)" b old new] assms
  by (simp add: swap_block_def Let_def)

text \<open>
  \<^verbatim>\<open>swapLabels\<close> itself does what the merge needs: over blocks of \<open>vps\<^sup>3\<close> voxels, no
  voxel of the layer holds the old label afterwards.
\<close>

lemma swapLabels_removes:
  assumes "old \<noteq> new"
    and "\<forall>(k, b) \<in> set (label_layer st).
           length (voxels b) = voxels_per_side b * voxels_per_side b * voxels_per_side b"
    and "(k, b) \<in> set (label_layer (swapLabels old new st))" and "v \<in> set (voxels b)"
  shows "label v \<noteq> old"
proof -
  from assms(3) obtain b0 where b0: "(k, b0) \<in> set (label_layer st)" "b = swap_block old new b0"
    by (auto simp: swapLabels_def)
  with assms(2) have "voxels b = map (relabel old new) (voxels b0)"
    by (auto simp: swap_block_voxels)
  with assms(1,4) show ?thesis
    by (auto simp: relabel_def)
qed

text \<open>
  \<^verbatim>\<open>mergeLabels\<close> returns only where no count exceeds the threshold, and then it has changed
  nothing.
\<close>

lemma merge_inner_Inr:
  "merge_inner l1 m st = Inr st' \<Longrightarrow>
   st' = st \<and> (\<forall>(l2, c) \<in> set m. \<not> sint (pairwise_confidence_threshold (label_tsdf_config st)) < sint c)"
  by (induction m) (auto split: if_splits)

lemma merge_outer_Inr:
  "merge_outer ledger st = Inr st' \<Longrightarrow>
   st' = st \<and> (\<forall>(l1, m) \<in> set ledger. \<forall>(l2, c) \<in> set m.
      \<not> sint (pairwise_confidence_threshold (label_tsdf_config st)) < sint c)"
proof (induction ledger)
  case Nil
  then show ?case by simp
next
  case (Cons p ledger)
  obtain l1 m where p: "p = (l1, m)" by (cases p)
  from Cons.prems p obtain st1 where 1: "merge_inner l1 m st = Inr st1"
    and 2: "merge_outer ledger st1 = Inr st'"
    by (auto split: sum.splits)
  from merge_inner_Inr [OF 1] 2 Cons.IH p show ?case by auto
qed

lemma mergeLabels_Inr:
  assumes "mergeLabels st = Inr st'"
  shows "st' = st"
    and "enable_pairwise_confidence_merging (label_tsdf_config st) \<Longrightarrow>
         (l1, m) \<in> set (pairwise_confidence st) \<Longrightarrow> (l2, c) \<in> set m \<Longrightarrow>
         sint c \<le> sint (pairwise_confidence_threshold (label_tsdf_config st))"
  using assms merge_outer_Inr [of "pairwise_confidence st" st st']
  by (fastforce simp: mergeLabels_def not_less split: if_splits)+

text \<open>
  C6. With merging enabled, the threshold 2, the ledger entry \<open>(1, 2)\<close> at count 3 and one
  voxel of label 1: \<^verbatim>\<open>mergeLabels\<close> rewrites the voxel to label 2 and erases the entry, and
  then increments the iterator of the erased entry. It does not return.
\<close>

theorem mergeLabels_increments_erased_iterator:
  "mergeLabels
     ((LabelTsdfIntegrator_new (default_config\<lparr>enable_pairwise_confidence_merging := True\<rparr>)
         [((0, 0, 0), \<lparr>voxels_per_side = 1,
                       voxels = [\<lparr>label = 1, label_confidence = 4 :: 16 word\<rparr>],
                       updated = False\<rparr>)] 2 :: (16 word, unit) LabelTsdfIntegrator)
        \<lparr>pairwise_confidence := [(1, [(2, 3)])]\<rparr>)
   = Inl (InvalidatedIterator,
       (LabelTsdfIntegrator_new (default_config\<lparr>enable_pairwise_confidence_merging := True\<rparr>)
         [((0, 0, 0), \<lparr>voxels_per_side = 1,
                       voxels = [\<lparr>label = 2, label_confidence = 4\<rparr>],
                       updated = True\<rparr>)] 2)
        \<lparr>pairwise_confidence := [(1, [])]\<rparr>)"
  by (simp add: mergeLabels_def LabelTsdfIntegrator_new_def default_config_def merge_pair_def
      swapLabels_def swap_block_def swap_voxel_def map_modify_def map_erase_def)

subsection \<open>The candidate scan and the ledger\<close>

text \<open>Look-ups after the operations on a \<^verbatim>\<open>std::map\<close>.\<close>

lemma map_of_map_modify:
  "map_of (map_modify k f m) k' = (if k' = k then map_option f (map_of m k) else map_of m k')"
  by (induction m) (auto simp: map_modify_def)

lemma map_of_map_insert_sorted:
  "map_of m k = None \<Longrightarrow> map_of (map_insert_sorted k v m) k' = ((map_of m)(k \<mapsto> v)) k'"
  by (induction m) (auto split: if_splits)

lemma map_of_map_emplace:
  "map_of (map_emplace k v m) k' =
     (if k' = k \<and> map_of m k = None then Some v else map_of m k')"
  by (auto simp: map_emplace_def map_of_map_insert_sorted split: option.splits)

text \<open>
  The count the overlap table holds for a label and a segment. In a scan with pairwise
  merging enabled, every count the scan raises to 2 or more is checked against the
  threshold: on a table that did not know the segment, a label whose final count is at least
  2 and passes the comparison is a merge candidate.
\<close>

definition overlap_count :: "Candidates \<Rightarrow> Label \<Rightarrow> SegmentPtr \<Rightarrow> nat option" where
  "overlap_count candidates l segment =
     (case map_of candidates l of None \<Rightarrow> None | Some segments \<Rightarrow> map_of segments segment)"

lemma overlap_count_increase:
  "overlap_count (fst (increaseLabelCountForSegment cfg re segment l N (c, m))) l' segment =
     (if l' = l then Some (case overlap_count c l segment of None \<Rightarrow> 1 | Some n \<Rightarrow> Suc n)
      else overlap_count c l' segment)"
  by (auto simp: increaseLabelCountForSegment_def overlap_count_def map_of_map_modify
      map_of_map_emplace split: option.splits)

lemma merge_set_increase:
  "set (snd (increaseLabelCountForSegment cfg re segment l N (c, m))) =
     (if enable_pairwise_confidence_merging cfg \<and>
         (\<exists>n. overlap_count c l segment = Some n \<and> re (Suc n) N)
      then insert l (set m) else set m)"
  by (auto simp: increaseLabelCountForSegment_def overlap_count_def
      checkForSegmentLabelMergeCandidate_def split: option.splits)

definition repeated_overlaps_checked ::
  "(nat \<Rightarrow> nat \<Rightarrow> bool) \<Rightarrow> SegmentPtr \<Rightarrow> nat \<Rightarrow> Candidates \<times> Label list \<Rightarrow> bool" where
  "repeated_overlaps_checked re segment N tables \<longleftrightarrow>
     (\<forall>l n. overlap_count (fst tables) l segment = Some n \<longrightarrow> 2 \<le> n \<longrightarrow> re n N \<longrightarrow>
            l \<in> set (snd tables))"

lemma checked_increase:
  assumes "enable_pairwise_confidence_merging cfg"
    and "repeated_overlaps_checked re segment N tables"
  shows "repeated_overlaps_checked re segment N
           (increaseLabelCountForSegment cfg re segment l N tables)"
proof -
  obtain c m where t: "tables = (c, m)" by (cases tables)
  show ?thesis
    unfolding repeated_overlaps_checked_def t
  proof (intro allI impI)
    fix l' n
    assume n: "overlap_count (fst (increaseLabelCountForSegment cfg re segment l N (c, m))) l'
                 segment = Some n" "2 \<le> n" "re n N"
    show "l' \<in> set (snd (increaseLabelCountForSegment cfg re segment l N (c, m)))"
    proof (cases "l' = l")
      case True
      with n(1,2) obtain k where "overlap_count c l segment = Some k" "n = Suc k"
        by (auto simp: overlap_count_increase split: option.splits)
      with n(3) assms(1) True show ?thesis by (auto simp: merge_set_increase)
    next
      case False
      with n(1) have "overlap_count c l' segment = Some n" by (simp add: overlap_count_increase)
      with assms(2) n(2,3) have "l' \<in> set m"
        by (auto simp: repeated_overlaps_checked_def t)
      then show ?thesis by (auto simp: merge_set_increase)
    qed
  qed
qed

lemma checked_scan_point:
  assumes "enable_pairwise_confidence_merging cfg"
    and "repeated_overlaps_checked re segment (length (points_C seg)) (snd acc)"
  shows "repeated_overlaps_checked re segment (length (points_C seg))
           (snd (scan_point cfg re grid layer segment seg p acc))"
  using assms
  by (cases acc) (auto simp: scan_point_def Let_def checked_increase split: option.splits)

lemma checked_scan_fold:
  assumes "enable_pairwise_confidence_merging cfg"
    and "repeated_overlaps_checked re segment (length (points_C seg)) (snd acc)"
  shows "repeated_overlaps_checked re segment (length (points_C seg))
           (snd (fold (scan_point cfg re grid layer segment seg) ps acc))"
  using assms(2)
  by (induction ps arbitrary: acc) (simp_all add: checked_scan_point [OF assms(1)])

lemma scan_records_repeated_overlap:
  assumes "enable_pairwise_confidence_merging cfg"
    and "\<forall>l. overlap_count candidates l segment = None"
    and "scan_points cfg re grid layer segment seg candidates
           = (candidate_label_exists, candidates', merge_candidate_labels)"
    and "overlap_count candidates' l segment = Some n" and "2 \<le> n"
    and "re n (length (points_C seg))"
  shows "l \<in> set merge_candidate_labels"
proof -
  have "repeated_overlaps_checked re segment (length (points_C seg)) (candidates, [])"
    using assms(2) by (simp add: repeated_overlaps_checked_def)
  then have "repeated_overlaps_checked re segment (length (points_C seg))
      (snd (fold (scan_point cfg re grid layer segment seg) (points_C seg)
              (False, candidates, [])))"
    using checked_scan_fold [OF assms(1), of re segment seg "(False, candidates, [])"] by simp
  with assms(3-6) show ?thesis
    by (auto simp: scan_points_def repeated_overlaps_checked_def)
qed

text \<open>
  C2. A segment of two points, of which the first lies in a voxel of label 7 and the second in
  no allocated block: label 7 overlaps one point of two. Whatever the comparison of the ratio
  with the threshold says, the scan records the overlap in the table and leaves the set of
  merge candidates empty: the first overlap of a label with a segment is counted without the
  check.
\<close>

theorem scan_misses_single_overlap:
  "scan_points (default_config\<lparr>enable_pairwise_confidence_merging := True\<rparr>) ratio_exceeds
     (\<lambda>p :: nat. if p = 0 then ((0, 0, 0), 0) else ((1, 0, 0), 0))
     [((0, 0, 0), \<lparr>voxels_per_side = 1,
                   voxels = [\<lparr>label = 7, label_confidence = 1 :: 16 word\<rparr>],
                   updated = False\<rparr>)]
     0 \<lparr>points_C = [0, 1], T_G_C = id, labels = []\<rparr> []
   = (True, [(7, [(0, 1)])], [])"
  by (simp add: scan_points_def scan_point_def increaseLabelCountForSegment_def map_emplace_def)

text \<open>
  The count the ledger holds for a pair of labels, in the order given, and the count after one
  more co-occurrence.
\<close>

definition ledger_count :: "(Label \<times> (Label \<times> cint) list) list \<Rightarrow> Label \<Rightarrow> Label \<Rightarrow> cint option" where
  "ledger_count ledger a b = (case map_of ledger a of None \<Rightarrow> None | Some pairs \<Rightarrow> map_of pairs b)"

definition bump :: "cint option \<Rightarrow> cint option" where
  "bump oc = Some (case oc of None \<Rightarrow> 1 | Some c \<Rightarrow> c + 1)"

lemma min_max_pair:
  fixes x y :: "'a::linorder"
  assumes "x \<noteq> y"
  shows "(a = min x y \<and> b = max x y) \<longleftrightarrow> a < b \<and> ((a = x \<and> b = y) \<or> (a = y \<and> b = x))"
  using assms by (auto simp: min_def max_def)

lemma increase_pair_ordered:
  assumes "x \<noteq> y"
  shows "increase_pair x y ledger =
     (case map_of ledger (min x y) of
        Some pairs \<Rightarrow>
          (case map_of pairs (max x y) of
             Some _ \<Rightarrow> map_modify (min x y) (map_modify (max x y) (\<lambda>c. c + 1)) ledger
           | None \<Rightarrow> map_modify (min x y) (map_emplace (max x y) 1) ledger)
      | None \<Rightarrow> map_emplace (min x y) [(max x y, 1)] ledger)"
proof (cases "y < x")
  case True
  then have mm: "min x y = y" "max x y = x"
    by (auto simp: min_def max_def)
  show ?thesis unfolding mm using True assms by (simp add: increase_pair_def)
next
  case False
  then have mm: "min x y = x" "max x y = y"
    by (auto simp: min_def max_def)
  show ?thesis unfolding mm using False assms by (simp add: increase_pair_def)
qed

lemma ledger_count_increase_pair:
  "ledger_count (increase_pair x y ledger) a b =
     (if x \<noteq> y \<and> a = min x y \<and> b = max x y then bump (ledger_count ledger a b)
      else ledger_count ledger a b)"
proof (cases "x = y")
  case True
  then show ?thesis by (simp add: increase_pair_def)
next
  case False
  show ?thesis
  proof (cases "map_of ledger (min x y)")
    case None
    then show ?thesis
      using False
      by (simp add: increase_pair_ordered ledger_count_def bump_def map_of_map_emplace)
  next
    case (Some pairs)
    then show ?thesis
      using False
      by (cases "map_of pairs (max x y)")
        (simp_all add: increase_pair_ordered ledger_count_def bump_def map_of_map_emplace
          map_of_map_modify)
  qed
qed

lemma ledger_count_fold_increase_pair:
  assumes "distinct ys" and "x \<notin> set ys"
  shows "ledger_count (fold (increase_pair x) ys ledger) a b =
     (if \<exists>y \<in> set ys. a = min x y \<and> b = max x y then bump (ledger_count ledger a b)
      else ledger_count ledger a b)"
  using assms
proof (induction ys arbitrary: ledger)
  case Nil
  then show ?case by simp
next
  case (Cons y ys)
  have xy: "x \<noteq> y" and d: "distinct ys" "x \<notin> set ys" "y \<notin> set ys"
    using Cons.prems by auto
  let ?later = "\<exists>y' \<in> set ys. a = min x y' \<and> b = max x y'"
  have step: "ledger_count (fold (increase_pair x) (y # ys) ledger) a b =
      (if ?later then bump (ledger_count (increase_pair x y ledger) a b)
       else ledger_count (increase_pair x y ledger) a b)"
    using Cons.IH [OF d(1,2), of "increase_pair x y ledger"] by simp
  show ?case
  proof (cases "a = min x y \<and> b = max x y")
    case True
    have "\<not> ?later"
    proof
      assume ?later
      then obtain y' where y': "y' \<in> set ys" "a = min x y'" "b = max x y'" by blast
      then have "x \<noteq> y'" using d(2) by auto
      with y' True xy have "y' = y"
        using min_max_pair [of x y a b] min_max_pair [of x y' a b] by auto
      with y'(1) d(3) show False by simp
    qed
    then have "ledger_count (fold (increase_pair x) (y # ys) ledger) a b
        = ledger_count (increase_pair x y ledger) a b"
      unfolding step by (rule if_not_P)
    also have "\<dots> = bump (ledger_count ledger a b)"
      using True xy by (simp add: ledger_count_increase_pair)
    finally have l: "ledger_count (fold (increase_pair x) (y # ys) ledger) a b
        = bump (ledger_count ledger a b)" .
    have "\<exists>y' \<in> set (y # ys). a = min x y' \<and> b = max x y'"
      using True by simp
    then show ?thesis
      unfolding l by (rule if_P [symmetric])
  next
    case False
    then have eq: "ledger_count (increase_pair x y ledger) a b = ledger_count ledger a b"
      by (auto simp: ledger_count_increase_pair)
    have ex: "(\<exists>y' \<in> set (y # ys). a = min x y' \<and> b = max x y') \<longleftrightarrow> ?later"
      using False by auto
    show ?thesis
      unfolding step eq ex ..
  qed
qed

lemma ledger_count_increasePairwiseConfidenceCount:
  assumes "distinct mc"
  shows "ledger_count (increasePairwiseConfidenceCount mc ledger) a b =
     (if a < b \<and> a \<in> set mc \<and> b \<in> set mc then bump (ledger_count ledger a b)
      else ledger_count ledger a b)"
  using assms
proof (induction mc arbitrary: ledger)
  case Nil
  then show ?case by simp
next
  case (Cons x mc)
  have d: "distinct mc" "x \<notin> set mc" using Cons.prems by auto
  have here: "(\<exists>y \<in> set mc. a = min x y \<and> b = max x y) \<longleftrightarrow>
              a < b \<and> ((a = x \<and> b \<in> set mc) \<or> (b = x \<and> a \<in> set mc))"
    (is "?L \<longleftrightarrow> ?R")
  proof
    assume ?L
    then obtain y where y: "y \<in> set mc" "a = min x y \<and> b = max x y" by blast
    then have "x \<noteq> y" using d(2) by auto
    from min_max_pair [OF this, of a b] y show ?R by auto
  next
    assume R: ?R
    show ?L
    proof (cases "a = x \<and> b \<in> set mc")
      case True
      then have "x \<noteq> b" using d(2) by auto
      from min_max_pair [OF this, of a b] True R have "a = min x b \<and> b = max x b" by simp
      with True show ?thesis by blast
    next
      case False
      with R have ba: "b = x" "a \<in> set mc" by auto
      then have "x \<noteq> a" using d(2) by auto
      from min_max_pair [OF this, of a b] ba R have "a = min x a \<and> b = max x a" by simp
      with ba show ?thesis by blast
    qed
  qed
  have "ledger_count (increasePairwiseConfidenceCount (x # mc) ledger) a b =
      (if a < b \<and> a \<in> set mc \<and> b \<in> set mc
       then bump (ledger_count (fold (increase_pair x) mc ledger) a b)
       else ledger_count (fold (increase_pair x) mc ledger) a b)"
    using Cons.IH [OF d(1), of "fold (increase_pair x) mc ledger"] by simp
  also have "\<dots> =
      (if a < b \<and> a \<in> set (x # mc) \<and> b \<in> set (x # mc)
       then bump (ledger_count ledger a b) else ledger_count ledger a b)"
    using d(2) unfolding ledger_count_fold_increase_pair [OF d] here by auto
  finally show ?case .
qed

lemma distinct_increaseLabelCountForSegment:
  "distinct (snd tables) \<Longrightarrow>
   distinct (snd (increaseLabelCountForSegment cfg ratio_exceeds segment l n tables))"
  by (cases tables)
    (auto simp: increaseLabelCountForSegment_def checkForSegmentLabelMergeCandidate_def
      split: option.splits)

lemma distinct_scan_point:
  "distinct (snd (snd acc)) \<Longrightarrow>
   distinct (snd (snd (scan_point cfg ratio_exceeds grid layer segment seg p acc)))"
  by (cases acc)
    (auto simp: scan_point_def Let_def distinct_increaseLabelCountForSegment
      split: option.splits prod.splits)

lemma distinct_scan_fold:
  "distinct (snd (snd acc)) \<Longrightarrow>
   distinct (snd (snd (fold (scan_point cfg ratio_exceeds grid layer segment seg) ps acc)))"
  by (induction ps arbitrary: acc) (simp_all add: distinct_scan_point)

lemma distinct_scan_points:
  "distinct (snd (snd (scan_points cfg ratio_exceeds grid layer segment seg candidates)))"
  by (simp add: scan_points_def distinct_scan_fold)

text \<open>
  A layer of two one-voxel blocks with labels 7 and 9, a segment of four points of which two
  lie in each block, and an integrator with pairwise merging enabled.
\<close>

definition example_layer :: "16 word BlockHashMap" where
  "example_layer =
     [((0, 0, 0), \<lparr>voxels_per_side = 1, voxels = [\<lparr>label = 7, label_confidence = 1\<rparr>],
                   updated = False\<rparr>),
      ((1, 0, 0), \<lparr>voxels_per_side = 1, voxels = [\<lparr>label = 9, label_confidence = 1\<rparr>],
                   updated = False\<rparr>)]"

definition example_grid :: "nat \<Rightarrow> BlockIndex \<times> nat" where
  "example_grid p = (if p < 2 then ((0, 0, 0), 0) else ((1, 0, 0), 0))"

definition example_segment :: "nat SegmentStore" where
  "example_segment = (\<lambda>_. \<lparr>points_C = [0, 1, 2, 3], T_G_C = id, labels = []\<rparr>)"

definition merging_integrator :: "(16 word, unit) LabelTsdfIntegrator" where
  "merging_integrator =
     LabelTsdfIntegrator_new (default_config\<lparr>enable_pairwise_confidence_merging := True\<rparr>)
       example_layer 9"

text \<open>
  C8. With pairwise merging enabled, a call of \<^verbatim>\<open>computeSegmentLabelCandidates\<close> that
  returns has changed the ledger so: for labels \<open>a < b\<close> that are both in the set of merge
  candidates of the scan, the count at \<open>(a, b)\<close> is one more than before, or 1 where there
  was none; every other count, and so every count at a pair with the larger label first, is
  as before.
\<close>

theorem pairwise_confidence_incremented_once:
  fixes st :: "('c, 't) LabelTsdfIntegrator"
  assumes "enable_pairwise_confidence_merging (label_tsdf_config st)"
    and "computeSegmentLabelCandidates ratio_exceeds grid store segment candidates st
           = Inr (candidates', st')"
  defines "merge_candidate_labels \<equiv>
             snd (snd (scan_points (label_tsdf_config st) ratio_exceeds grid (label_layer st)
                         segment (store segment) candidates))"
  shows "ledger_count (pairwise_confidence st') a b =
           (if a < b \<and> a \<in> set merge_candidate_labels \<and> b \<in> set merge_candidate_labels
            then Some (case ledger_count (pairwise_confidence st) a b of
                         None \<Rightarrow> 1 | Some c \<Rightarrow> c + 1)
            else ledger_count (pairwise_confidence st) a b)"
proof -
  obtain ex c1 where scan:
    "scan_points (label_tsdf_config st) ratio_exceeds grid (label_layer st) segment
       (store segment) candidates = (ex, c1, merge_candidate_labels)"
    unfolding merge_candidate_labels_def
    by (cases "scan_points (label_tsdf_config st) ratio_exceeds grid (label_layer st) segment
                 (store segment) candidates") auto
  have d: "distinct merge_candidate_labels"
    unfolding merge_candidate_labels_def by (rule distinct_scan_points)
  have "pairwise_confidence st'
      = increasePairwiseConfidenceCount merge_candidate_labels (pairwise_confidence st)"
    using assms(1,2)
    by (auto simp: computeSegmentLabelCandidates_def Let_def scan split: if_splits sum.splits)
  then show ?thesis
    using ledger_count_increasePairwiseConfidenceCount [OF d, of "pairwise_confidence st" a b]
    by (simp add: bump_def)
qed

theorem pairwise_confidence_incremented_once_witness:
  "computeSegmentLabelCandidates (\<lambda>c n. n < 20 * c) example_grid example_segment 0 []
     merging_integrator
   = Inr ([(7, [(0, 2)]), (9, [(0, 2)])],
          merging_integrator\<lparr>pairwise_confidence := [(7, [(9, 1)])]\<rparr>) \<and>
   ledger_count [(7, [(9, 1)])] 7 9 = Some 1"
  using pairwise_confidence_incremented_once [of merging_integrator "\<lambda>c n. n < 20 * c"
      example_grid example_segment 0 "[]" "[(7, [(0, 2)]), (9, [(0, 2)])]"
      "merging_integrator\<lparr>pairwise_confidence := [(7, [(9, 1)])]\<rparr>" 7 9]
  by (simp add: computeSegmentLabelCandidates_def scan_points_def scan_point_def
      increaseLabelCountForSegment_def checkForSegmentLabelMergeCandidate_def map_emplace_def
      map_modify_def increase_pair_def ledger_count_def merging_integrator_def
      LabelTsdfIntegrator_new_def default_config_def example_layer_def example_grid_def
      example_segment_def)

subsection \<open>The greedy assignment\<close>

lemma keys_map_erase: "fst ` set (map_erase k m) \<subseteq> fst ` set m"
  by (auto simp: map_erase_def)

lemma greedy_loop_effect:
  "greedy_loop candidates labelled store = (candidates', labelled', store') \<Longrightarrow>
   labelled \<subseteq> labelled' \<and>
   (\<forall>s. (s \<notin> labelled' - labelled \<longrightarrow> store' s = store s) \<and>
        (s \<in> labelled' - labelled \<longrightarrow>
           (\<exists>l \<in> fst ` set candidates. store' s = assign_label l (store s))))"
proof (induction candidates labelled store rule: greedy_loop.induct)
  case (1 candidates labelled store)
  show ?case
  proof (cases "getNextSegmentLabelPair candidates labelled")
    case None
    with "1.prems" have "labelled' = labelled" "store' = store"
      by (subst (asm) greedy_loop.simps, simp)+
    then show ?thesis by simp
  next
    case (Some p)
    obtain seg l where p: "p = (seg, l)" by (cases p)
    have l: "l \<in> fst ` set candidates" and seg: "seg \<notin> labelled"
      using getNextSegmentLabelPair_Some [of candidates labelled seg l] Some p by simp_all
    let ?store1 = "store(seg := assign_label l (store seg))"
    have run1: "greedy_loop (map_erase l candidates) (insert seg labelled) ?store1
                  = (candidates', labelled', store')"
      using "1.prems" by (subst (asm) greedy_loop.simps) (simp add: Some p)
    have IH: "insert seg labelled \<subseteq> labelled'"
      "\<And>s. s \<notin> labelled' - insert seg labelled \<Longrightarrow> store' s = ?store1 s"
      "\<And>s. s \<in> labelled' - insert seg labelled \<Longrightarrow>
           \<exists>l' \<in> fst ` set (map_erase l candidates). store' s = assign_label l' (?store1 s)"
      using "1.IH" [OF Some p [symmetric] run1] by blast+
    have sub: "labelled \<subseteq> labelled'" using IH(1) by auto
    have same: "store' s = store s" if "s \<notin> labelled' - labelled" for s
    proof -
      have "s \<noteq> seg" using that IH(1) seg by auto
      moreover have "s \<notin> labelled' - insert seg labelled" using that by auto
      ultimately show ?thesis using IH(2) [of s] by simp
    qed
    have new: "\<exists>l' \<in> fst ` set candidates. store' s = assign_label l' (store s)"
      if "s \<in> labelled' - labelled" for s
    proof (cases "s = seg")
      case True
      then have "store' s = assign_label l (store s)" using IH(2) [of s] by simp
      with l show ?thesis by blast
    next
      case False
      with that have "s \<in> labelled' - insert seg labelled" by auto
      from IH(3) [OF this] obtain l' where "l' \<in> fst ` set (map_erase l candidates)"
        and "store' s = assign_label l' (?store1 s)" by blast
      with False keys_map_erase [of l candidates]
      have "l' \<in> fst ` set candidates" "store' s = assign_label l' (store s)" by auto
      then show ?thesis by blast
    qed
    from sub same new show ?thesis by blast
  qed
qed

lemma label_unclaimed_effect:
  "label_unclaimed segs (labelled, store, h) = Inr (labelled', store', h') \<Longrightarrow>
   labelled' = labelled \<union> set segs \<and> h \<le> h' \<and>
   (\<forall>s. (s \<notin> set segs - labelled \<longrightarrow> store' s = store s) \<and>
        (s \<in> set segs - labelled \<longrightarrow>
           (\<exists>l. h < l \<and> l \<le> h' \<and> store' s = assign_label l (store s))))"
proof (induction segs arbitrary: labelled store h)
  case Nil
  then show ?case by simp
next
  case (Cons x segs)
  show ?case
  proof (cases "x \<in> labelled")
    case True
    with Cons.prems have "label_unclaimed segs (labelled, store, h) = Inr (labelled', store', h')"
      by simp
    from Cons.IH [OF this] True show ?thesis by auto
  next
    case False
    with Cons.prems obtain fresh h1 where f: "getFreshLabel h = Inr (fresh, h1)"
      and run: "label_unclaimed segs
                  (insert x labelled, store(x := assign_label fresh (store x)), h1)
                = Inr (labelled', store', h')"
      by (auto split: sum.splits)
    from getFreshLabel_Inr [OF f] have fr: "fresh = h1" "h < h1" by auto
    note IH = Cons.IH [OF run]
    have 1: "labelled' = labelled \<union> set (x # segs)" using IH by auto
    have 2: "h \<le> h'" using IH fr by auto
    have 3: "store' s = store s" if "s \<notin> set (x # segs) - labelled" for s
    proof -
      have "s \<noteq> x" using that False by auto
      moreover have "s \<notin> set segs - insert x labelled" using that by auto
      ultimately show ?thesis using IH by auto
    qed
    have 4: "\<exists>l. h < l \<and> l \<le> h' \<and> store' s = assign_label l (store s)"
      if "s \<in> set (x # segs) - labelled" for s
    proof (cases "s = x")
      case True
      then have "store' s = assign_label fresh (store s)" using IH by auto
      moreover have "h < fresh" "fresh \<le> h'" using fr IH by auto
      ultimately show ?thesis by blast
    next
      case False
      with that have "s \<in> set segs - insert x labelled" by auto
      with IH obtain l where "h1 < l" "l \<le> h'"
        "store' s = assign_label l ((store(x := assign_label fresh (store x))) s)" by blast
      with False fr show ?thesis by (auto intro!: exI [of _ l])
    qed
    from 1 2 3 4 show ?thesis by blast
  qed
qed

lemma label_unclaimed_returns:
  "unat h + length segs < 2 ^ 32 \<Longrightarrow> \<exists>r. label_unclaimed segs (labelled, store, h) = Inr r"
proof (induction segs arbitrary: labelled store h)
  case Nil
  then show ?case by simp
next
  case (Cons x segs)
  show ?case
  proof (cases "x \<in> labelled")
    case True
    then show ?thesis using Cons.IH [of h labelled store] Cons.prems by simp
  next
    case False
    have "h \<noteq> - 1"
    proof
      assume "h = - 1"
      then have "unat h = 2 ^ 32 - 1"
        by (simp add: unsigned_minus_1_eq_mask mask_eq_exp_minus_1)
      with Cons.prems show False by simp
    qed
    then have f: "getFreshLabel h = Inr (h + 1, h + 1)" and u: "unat (h + 1) = Suc (unat h)"
      using word_succ_no_wrap(1) [of h] by (simp_all add: getFreshLabel_room)
    have "unat (h + 1) + length segs < 2 ^ 32" using u Cons.prems by simp
    from Cons.IH [OF this] False f show ?thesis by simp
  qed
qed

lemma label_unclaimed_all_labelled:
  "set segs \<subseteq> labelled \<Longrightarrow> label_unclaimed segs (labelled, store, h) = Inr (labelled, store, h)"
  by (induction segs) simp_all

lemma label_unclaimed_one:
  assumes "set segs \<subseteq> insert x labelled" and "x \<in> set segs" and "x \<notin> labelled" and "h \<noteq> - 1"
  shows "label_unclaimed segs (labelled, store, h)
           = Inr (insert x labelled, store(x := assign_label (h + 1) (store x)), h + 1)"
  using assms(1,2)
proof (induction segs)
  case Nil
  then show ?case by simp
next
  case (Cons y segs)
  have f: "getFreshLabel h = Inr (h + 1, h + 1)"
    using assms(4) by (rule getFreshLabel_room)
  show ?case
  proof (cases "y = x")
    case True
    have "set segs \<subseteq> insert x labelled" using Cons.prems(1) by simp
    then have "label_unclaimed segs
        (insert x labelled, store(x := assign_label (h + 1) (store x)), h + 1)
      = Inr (insert x labelled, store(x := assign_label (h + 1) (store x)), h + 1)"
      by (rule label_unclaimed_all_labelled)
    with True assms(3) f show ?thesis by (simp add: fun_upd_def)
  next
    case False
    then have "y \<in> labelled" "x \<in> set segs" "set segs \<subseteq> insert x labelled"
      using Cons.prems by auto
    with Cons.IH show ?thesis by simp
  qed
qed

text \<open>Two-point segments without labels at every address, and an integrator at counter 7.\<close>

definition example_store :: "nat SegmentStore" where
  "example_store = (\<lambda>_. \<lparr>points_C = [0, 1], T_G_C = id, labels = []\<rparr>)"

definition example_integrator :: "(16 word, unit) LabelTsdfIntegrator" where
  "example_integrator = LabelTsdfIntegrator_new default_config [] 7"

text \<open>
  C3. The table holds \<open>(segA, label1) = 5\<close>, \<open>(segA, label2) = 3\<close> and
  \<open>(segB, label1) = 4\<close>, in whichever order the two labels and the two segments are
  sorted; the batch is \<open>segA\<close> and \<open>segB\<close>, unlabelled, and the counter is below the
  largest label. Then \<^verbatim>\<open>decideLabelPointClouds\<close> returns, \<open>label1\<close> is erased from the
  table, every point of \<open>segA\<close> has \<open>label1\<close>, every point of \<open>segB\<close> has the counter
  plus one, which is above the counter, and the counter is left there.
\<close>

theorem greedy_precedence:
  fixes st :: "('c, 't) LabelTsdfIntegrator"
  assumes "label1 \<noteq> label2" and "segA \<noteq> segB"
    and "candidates = [(label1, on_label1), (label2, [(segA, 3)])] \<or>
         candidates = [(label2, [(segA, 3)]), (label1, on_label1)]"
    and "on_label1 = [(segA, 5), (segB, 4)] \<or> on_label1 = [(segB, 4), (segA, 5)]"
    and "set segments_to_integrate = {segA, segB}"
    and "labels (store segA) = []" and "labels (store segB) = []"
    and "highest_label st < - 1"
  shows "\<exists>store'.
           decideLabelPointClouds segments_to_integrate candidates store st
             = Inr ([(label2, [(segA, 3)])], store',
                    st\<lparr>highest_label := highest_label st + 1\<rparr>) \<and>
           labels (store' segA) = replicate (length (points_C (store segA))) label1 \<and>
           labels (store' segB)
             = replicate (length (points_C (store segB))) (highest_label st + 1) \<and>
           highest_label st < highest_label st + 1"
proof -
  let ?h = "highest_label st"
  let ?store1 = "store(segA := assign_label label1 (store segA))"
  have h: "?h \<noteq> - 1" using assms(8) by auto
  have first: "getNextSegmentLabelPair candidates {} = Some (segA, label1)"
    using assms(3,4) by (auto simp: getNextSegmentLabelPair_def next_pair_step_def)
  have erased: "map_erase label1 candidates = [(label2, [(segA, 3)])]"
    using assms(1,3) by (auto simp: map_erase_def)
  have second: "getNextSegmentLabelPair [(label2, [(segA, 3)])] {segA} = None"
    by (simp add: getNextSegmentLabelPair_def next_pair_step_def)
  have loop: "greedy_loop candidates {} store = ([(label2, [(segA, 3)])], {segA}, ?store1)"
    by (subst greedy_loop.simps, simp add: first erased, subst greedy_loop.simps,
        simp add: second)
  have rest: "label_unclaimed segments_to_integrate ({segA}, ?store1, ?h)
      = Inr ({segB, segA}, ?store1(segB := assign_label (?h + 1) (?store1 segB)), ?h + 1)"
    using assms(2,5) h by (intro label_unclaimed_one) auto
  let ?store2 = "?store1(segB := assign_label (?h + 1) (?store1 segB))"
  have "decideLabelPointClouds segments_to_integrate candidates store st
      = Inr ([(label2, [(segA, 3)])], ?store2, st\<lparr>highest_label := ?h + 1\<rparr>)"
    by (simp add: decideLabelPointClouds_def loop rest)
  moreover have "labels (?store2 segA) = replicate (length (points_C (store segA))) label1"
    using assms(2,6) by (simp add: assign_label_def)
  moreover have "labels (?store2 segB) = replicate (length (points_C (store segB))) (?h + 1)"
    using assms(2,7) by (simp add: assign_label_def)
  moreover have "?h < ?h + 1" using h by (rule word_succ_no_wrap(2))
  ultimately show ?thesis by blast
qed

theorem greedy_precedence_witness:
  "case decideLabelPointClouds [10, 20] [(1, [(10, 5), (20, 4)]), (2, [(10, 3)])]
          example_store example_integrator of
     Inl e \<Rightarrow> False
   | Inr (candidates', store', st') \<Rightarrow>
       candidates' = [(2, [(10, 3)])] \<and> labels (store' 10) = [1, 1] \<and>
       labels (store' 20) = [8, 8] \<and> highest_label st' = 8"
  using greedy_precedence [of 1 2 10 20 "[(1, [(10, 5), (20, 4)]), (2, [(10, 3)])]"
      "[(10, 5), (20, 4)]" "[10, 20]" example_store example_integrator]
  by (auto simp: example_store_def example_integrator_def LabelTsdfIntegrator_new_def)

text \<open>
  C4. For a batch whose segments have no labels on entry: \<^verbatim>\<open>decideLabelPointClouds\<close>
  returns whenever the counter has room for one fresh label per segment of the batch, and
  whenever it returns, every segment of the batch has its points unchanged and as many labels
  as points, all of them one label. For a segment the greedy loop claimed that label is a
  label of the table; for any other it is fresh, above the counter on entry and at most the
  counter on return.
\<close>

theorem decideLabelPointClouds_covers_batch:
  fixes st :: "('c, 't) LabelTsdfIntegrator"
  assumes "\<forall>s \<in> set segments_to_integrate. labels (store s) = []"
  shows "(unat (highest_label st) + length segments_to_integrate < 2 ^ 32 \<longrightarrow>
            (\<exists>r. decideLabelPointClouds segments_to_integrate candidates store st = Inr r)) \<and>
         (\<forall>candidates' store' st'.
            decideLabelPointClouds segments_to_integrate candidates store st
              = Inr (candidates', store', st') \<longrightarrow>
            (\<forall>s \<in> set segments_to_integrate.
               points_C (store' s) = points_C (store s) \<and>
               (\<exists>l. labels (store' s) = replicate (length (points_C (store' s))) l \<and>
                    (if s \<in> fst (snd (greedy_loop candidates {} store))
                     then l \<in> fst ` set candidates
                     else highest_label st < l \<and> l \<le> highest_label st'))))"
proof -
  obtain c1 lab1 store1 where g: "greedy_loop candidates {} store = (c1, lab1, store1)"
    by (cases "greedy_loop candidates {} store")
  note G = greedy_loop_effect [OF g]
  have returns: "\<exists>r. decideLabelPointClouds segments_to_integrate candidates store st = Inr r"
    if "unat (highest_label st) + length segments_to_integrate < 2 ^ 32"
  proof -
    from label_unclaimed_returns [OF that, of lab1 store1]
    obtain r where "label_unclaimed segments_to_integrate (lab1, store1, highest_label st) = Inr r"
      by blast
    then show ?thesis
      by (cases r) (auto simp: decideLabelPointClouds_def g)
  qed
  have covered: "points_C (store' s) = points_C (store s) \<and>
      (\<exists>l. labels (store' s) = replicate (length (points_C (store' s))) l \<and>
           (if s \<in> fst (snd (greedy_loop candidates {} store))
            then l \<in> fst ` set candidates
            else highest_label st < l \<and> l \<le> highest_label st'))"
    if d: "decideLabelPointClouds segments_to_integrate candidates store st
             = Inr (candidates', store', st')"
      and s: "s \<in> set segments_to_integrate"
    for candidates' store' st' s
  proof -
    from d obtain lab2 h2 where
      u: "label_unclaimed segments_to_integrate (lab1, store1, highest_label st)
            = Inr (lab2, store', h2)"
      and h2: "highest_label st' = h2"
      by (auto simp: decideLabelPointClouds_def g split: sum.splits)
    note U = label_unclaimed_effect [OF u]
    have empty: "labels (store s) = []" using assms s by simp
    show ?thesis
    proof (cases "s \<in> lab1")
      case True
      then have "store' s = store1 s" using U by auto
      moreover from True G obtain l where "l \<in> fst ` set candidates"
        "store1 s = assign_label l (store s)" by blast
      ultimately show ?thesis
        using True empty by (auto simp: g assign_label_def)
    next
      case False
      then have "store1 s = store s" using G by auto
      moreover from False s U obtain l where "highest_label st < l" "l \<le> h2"
        "store' s = assign_label l (store1 s)" by blast
      ultimately show ?thesis
        using False empty h2 by (auto simp: g assign_label_def)
    qed
  qed
  from returns covered show ?thesis by blast
qed

theorem decideLabelPointClouds_covers_batch_witness:
  "case decideLabelPointClouds [20, 10, 30] [(1, [(10, 5), (20, 4)]), (2, [(10, 3)])]
          example_store example_integrator of
     Inl e \<Rightarrow> False
   | Inr (candidates', store', st') \<Rightarrow>
       labels (store' 10) = [1, 1] \<and> labels (store' 20) = [8, 8] \<and>
       labels (store' 30) = [9, 9] \<and> highest_label st' = 9"
  using decideLabelPointClouds_covers_batch [of "[20, 10, 30]" example_store example_integrator
      "[(1, [(10, 5), (20, 4)]), (2, [(10, 3)])]"]
  by (simp add: decideLabelPointClouds_def greedy_loop.simps getNextSegmentLabelPair_def
      next_pair_step_def map_erase_def getFreshLabel_def assign_label_def example_store_def
      example_integrator_def LabelTsdfIntegrator_new_def)

subsection \<open>Listing labels\<close>

lemma count_map_modify_block [simp]:
  "labels_count_map (modify_block p f st) = labels_count_map st"
  by (cases p) (simp_all add: modify_block_def)

lemma count_map_allocate:
  "labels_count_map (snd (snd (allocateStorageAndGetLabelVoxelPtr vps block_of linear_of idx
      cache st))) = labels_count_map st"
  by (cases cache)
    (auto simp: allocateStorageAndGetLabelVoxelPtr_def Let_def split: prod.splits option.splits)

lemma count_map_updateLabelVoxel_at [simp]:
  "labels_count_map (updateLabelVoxel_at p l c st) = labels_count_map st"
  by (cases p) (auto simp: updateLabelVoxel_at_def Let_def split: option.splits prod.splits)

lemma count_map_integrate_label_voxel [simp]:
  "labels_count_map (integrate_label_voxel vps block_of linear_of l c idx st)
     = labels_count_map st"
  using count_map_allocate [of vps block_of linear_of idx "(None, block_of idx)" st]
  by (auto simp: integrate_label_voxel_def Let_def split: prod.splits)

lemma count_map_integrateVoxel [simp]:
  "labels_count_map (integrateVoxel vps block_of linear_of l ray st) = labels_count_map st"
  unfolding integrateVoxel_def by (induction ray arbitrary: st) simp_all

lemma count_map_compute:
  "computeSegmentLabelCandidates ratio_exceeds grid store segment candidates st = Inr (c, st')
   \<Longrightarrow> labels_count_map st' = labels_count_map st"
  by (auto simp: computeSegmentLabelCandidates_def Let_def
      split: prod.splits if_splits sum.splits)

lemma count_map_decide:
  "decideLabelPointClouds segs candidates store st = Inr (c, store', st')
   \<Longrightarrow> labels_count_map st' = labels_count_map st"
  by (auto simp: decideLabelPointClouds_def Let_def split: prod.splits sum.splits)

text \<open>
  The state a \<^verbatim>\<open>mergeLabels\<close> leaves where it stops at the erased iterator: the voxels and
  the ledger have changed, the count map has not.
\<close>

lemma count_map_merge_pair [simp]:
  "labels_count_map (merge_pair label1 label2 st) = labels_count_map st"
  by (simp add: merge_pair_def swapLabels_def Let_def)

lemma count_map_merge_inner_stopped:
  "merge_inner label1 m st = Inl (e, st') \<Longrightarrow> labels_count_map st' = labels_count_map st"
  by (induction m) (auto split: if_splits)

lemma count_map_merge_outer_stopped:
  "merge_outer ledger st = Inl (e, st') \<Longrightarrow> labels_count_map st' = labels_count_map st"
proof (induction ledger)
  case Nil
  then show ?case by simp
next
  case (Cons p ledger)
  obtain label1 m where p: "p = (label1, m)" by (cases p)
  show ?case
  proof (cases "merge_inner label1 m st")
    case (Inl stopped)
    with Cons.prems p have "merge_inner label1 m st = Inl (e, st')" by simp
    then show ?thesis by (rule count_map_merge_inner_stopped)
  next
    case (Inr st1)
    then have "st1 = st" using merge_inner_Inr [of label1 m st st1] by simp
    with Inr Cons.prems p have "merge_outer ledger st = Inl (e, st')" by simp
    then show ?thesis by (rule Cons.IH)
  qed
qed

lemma count_map_mergeLabels_stopped:
  "mergeLabels st = Inl (e, st') \<Longrightarrow> labels_count_map st' = labels_count_map st"
  by (auto simp: mergeLabels_def split: if_splits dest: count_map_merge_outer_stopped)

lemma count_map_execute:
  "execute operation st = Inr st' \<Longrightarrow> labels_count_map st' = labels_count_map st"
proof (cases operation)
  case (ComputeSegmentLabelCandidates r g s p c)
  then show "execute operation st = Inr st' \<Longrightarrow> ?thesis"
    by (auto split: sum.splits dest: count_map_compute)
next
  case (DecideLabelPointClouds segs c s)
  then show "execute operation st = Inr st' \<Longrightarrow> ?thesis"
    by (auto split: sum.splits dest: count_map_decide)
next
  case MergeLabels
  then show "execute operation st = Inr st' \<Longrightarrow> ?thesis"
    by (auto split: sum.splits dest: mergeLabels_Inr(1) count_map_mergeLabels_stopped)
qed (auto simp: updateLabelLayerWithStoredBlocks_def swapLabels_def split: sum.splits)

lemma count_map_run:
  "run operations st = Inr st' \<Longrightarrow> labels_count_map st' = labels_count_map st"
proof (induction operations arbitrary: st)
  case Nil
  then show ?case by simp
next
  case (Cons operation operations)
  then obtain st1 where 1: "execute operation st = Inr st1" and 2: "run operations st1 = Inr st'"
    by (auto split: sum.splits)
  from count_map_execute [OF 1] Cons.IH [OF 2] show ?case by simp
qed

text \<open>
  C10. After any list of operations run from a newly constructed integrator,
  \<^verbatim>\<open>labels_count_map_\<close> is still empty and \<^verbatim>\<open>getLabelsList\<close> returns the empty list: no
  operation writes the map. The runs include those in which \<^verbatim>\<open>mergeLabels\<close> rewrites
  voxels and erases ledger entries; the only runs without a final state are those a failed
  \<^verbatim>\<open>CHECK\<close> ends.
\<close>

theorem getLabelsList_always_empty:
  fixes operations :: "('p, 'c::len word) operation list"
  assumes "run operations (LabelTsdfIntegrator_new cfg layer h) = Inr st"
  shows "getLabelsList st = [] \<and> labels_count_map st = []"
  using count_map_run [OF assms]
  by (simp add: getLabelsList_def LabelTsdfIntegrator_new_def)

text \<open>
  An instance with a merge that rewrites a voxel: on the layer with labels 7 and 9, three scans
  of the segment bring the ledger count of \<open>(7, 9)\<close> to 3, above the default threshold 2; the
  merge rewrites label 7 to 9 and erases the entry, a second merge finds nothing to do, and a
  label is minted.
\<close>

theorem getLabelsList_always_empty_witness:
  "run [ComputeSegmentLabelCandidates (\<lambda>c n. n < 20 * c) example_grid example_segment 0 [],
        ComputeSegmentLabelCandidates (\<lambda>c n. n < 20 * c) example_grid example_segment 0 [],
        ComputeSegmentLabelCandidates (\<lambda>c n. n < 20 * c) example_grid example_segment 0 [],
        MergeLabels, MergeLabels, GetFreshLabel]
     (LabelTsdfIntegrator_new (default_config\<lparr>enable_pairwise_confidence_merging := True\<rparr>)
        example_layer 9 :: (16 word, unit) LabelTsdfIntegrator)
   = Inr ((LabelTsdfIntegrator_new
             (default_config\<lparr>enable_pairwise_confidence_merging := True\<rparr>)
             [((0, 0, 0), \<lparr>voxels_per_side = 1, voxels = [\<lparr>label = 9, label_confidence = 1\<rparr>],
                           updated = True\<rparr>),
              ((1, 0, 0), \<lparr>voxels_per_side = 1, voxels = [\<lparr>label = 9, label_confidence = 1\<rparr>],
                           updated = False\<rparr>)] 10)
          \<lparr>pairwise_confidence := [(7, [])]\<rparr>) \<and>
   getLabelsList ((LabelTsdfIntegrator_new
             (default_config\<lparr>enable_pairwise_confidence_merging := True\<rparr>)
             [((0, 0, 0), \<lparr>voxels_per_side = 1, voxels = [\<lparr>label = 9, label_confidence = 1\<rparr>],
                           updated = True\<rparr>),
              ((1, 0, 0), \<lparr>voxels_per_side = 1, voxels = [\<lparr>label = 9, label_confidence = 1\<rparr>],
                           updated = False\<rparr>)] 10 :: (16 word, unit) LabelTsdfIntegrator)
          \<lparr>pairwise_confidence := [(7, [])]\<rparr>) = []"
  (is "?run = Inr ?st \<and> _")
proof -
  have r: "?run = Inr ?st"
    by (simp add: computeSegmentLabelCandidates_def scan_points_def scan_point_def
        increaseLabelCountForSegment_def checkForSegmentLabelMergeCandidate_def map_emplace_def
        map_modify_def map_erase_def increase_pair_def mergeLabels_def merge_pair_def
        swapLabels_def swap_block_def swap_voxel_def getFreshLabel_def
        LabelTsdfIntegrator_new_def default_config_def example_layer_def example_grid_def
        example_segment_def Let_def)
  from getLabelsList_always_empty [OF r] r show ?thesis by simp
qed

end
